theory Spec2Isabelle
  imports Main "HOL-Library.Char_ord" "HOL-Library.List_Lexorder" "HOL-Library.Multiset"
    "HOL-Library.Log_Nat"
begin

section \<open>The task manager: data model\<close>

text \<open>
  The source is \<^verbatim>\<open>src/TaskManager.js\<close>: a class holding an array of task objects and a
  counter, saved as one JSON file after every mutation. The model keeps the JavaScript
  object graph explicit: the array \<^verbatim>\<open>this.tasks\<close> and every task object are cells of a heap,
  named by references, because several operations hand out the very objects the store
  holds. Fields carry the types the data model documents: identifiers and counters are
  integers, texts are strings, and a due date is absent (\<^verbatim>\<open>null\<close>), a text, or a
  \<^verbatim>\<open>Date\<close> object as the demo driver passes one. A JavaScript number is a double:
  where the code computes with numbers, the model rounds as doubles do.
\<close>

type_synonym ref = nat

datatype due = NoDue | DueText string | DueDate int

record task =
  id' :: int
  title :: string
  description :: string
  status :: string
  priority :: string
  createdAt :: string
  updatedAt :: string
  tags :: "string list"
  dueDate :: due

datatype cell = Arr "ref list" | Obj task

text \<open>The argument of \<^verbatim>\<open>addTask\<close>: every property may be missing.\<close>

record taskData =
  in_title :: "string option"
  in_description :: "string option"
  in_priority :: "string option"
  in_tags :: "string list option"
  in_dueDate :: due

text \<open>The argument of \<^verbatim>\<open>updateTask\<close>: the properties present in the object.\<close>

record updates =
  up_id :: "int option"
  up_title :: "string option"
  up_description :: "string option"
  up_status :: "string option"
  up_priority :: "string option"
  up_createdAt :: "string option"
  up_updatedAt :: "string option"
  up_tags :: "string list option"
  up_dueDate :: "due option"

text \<open>The argument of \<^verbatim>\<open>getTasks\<close>.\<close>

record filters =
  by_status :: "string option"
  by_priority :: "string option"
  by_tag :: "string option"
  sortBy :: "string option"

text \<open>
  The storage file: missing, unreadable for another reason, or holding a text that is
  either not JSON or the JSON object with the properties \<^verbatim>\<open>tasks\<close>, \<^verbatim>\<open>nextId\<close> and
  \<^verbatim>\<open>lastSaved\<close>, each of which may be absent.
\<close>

datatype content = Malformed | Doc "task list option" "int option" "string option"

datatype disk = Absent | Unreadable | File content

datatype error = EmptyTitle | NotFound int | ReadFailed | ParseFailed | WriteFailed

text \<open>
  The state of the process: the two fields of the manager, the heap, the file system as
  far as the manager touches it, and the clock, whose \<open>n\<close>-th reading is \<open>clock n\<close>
  milliseconds since the epoch.
\<close>

record state =
  tasks :: ref
  nextId :: int
  heap :: "cell list"
  disk :: disk
  dirOk :: bool
  writable :: bool
  clock :: "nat \<Rightarrow> int"
  ticks :: nat

section \<open>The runtime: truthiness, time, heap access\<close>

definition truthy :: "string option \<Rightarrow> bool" where
  "truthy v = (case v of None \<Rightarrow> False | Some s \<Rightarrow> s \<noteq> [])"

definition or_else :: "string option \<Rightarrow> string \<Rightarrow> string" where
  "or_else v d = (case v of None \<Rightarrow> d | Some s \<Rightarrow> if s = [] then d else s)"

definition dueTruthy :: "due \<Rightarrow> bool" where
  "dueTruthy d = (case d of NoDue \<Rightarrow> False | DueText s \<Rightarrow> s \<noteq> [] | DueDate t \<Rightarrow> True)"

definition digit :: "int \<Rightarrow> char" where
  "digit n = char_of (48 + n)"

primrec fixed :: "nat \<Rightarrow> int \<Rightarrow> string" where
  "fixed 0 n = []"
| "fixed (Suc w) n = fixed w (n div 10) @ [digit (n mod 10)]"

text \<open>Year, month and day of a day number counted from 1 January 1970.\<close>

definition civil :: "int \<Rightarrow> int \<times> int \<times> int" where
  "civil days =
     (let z = days + 719468;
          era = z div 146097;
          doe = z - era * 146097;
          yoe = (doe - doe div 1460 + doe div 36524 - doe div 146096) div 365;
          doy = doe - (365 * yoe + yoe div 4 - yoe div 100);
          mp = (5 * doy + 2) div 153;
          d = doy - (153 * mp + 2) div 5 + 1;
          m = (if mp < 10 then mp + 3 else mp - 9);
          y = yoe + era * 400 + (if m \<le> 2 then 1 else 0)
      in (y, m, d))"

definition yearText :: "int \<Rightarrow> string" where
  "yearText y =
     (if 0 \<le> y \<and> y \<le> 9999 then fixed 4 y
      else (if y < 0 then ''-'' else ''+'') @ fixed 6 \<bar>y\<bar>)"

definition toISOString :: "int \<Rightarrow> string" where
  "toISOString t =
     (let ms = t mod 86400000 in
      case civil (t div 86400000) of (y, m, d) \<Rightarrow>
        yearText y @ ''-'' @ fixed 2 m @ ''-'' @ fixed 2 d @ ''T'' @
        fixed 2 (ms div 3600000) @ '':'' @ fixed 2 (ms div 60000 mod 60) @ '':'' @
        fixed 2 (ms div 1000 mod 60) @ ''.'' @ fixed 3 (ms mod 1000) @ ''Z'')"

text \<open>A \<^verbatim>\<open>Date\<close> object is valid when its time value is within the range of ECMAScript.\<close>

definition validTime :: "int \<Rightarrow> bool" where
  "validTime t = (\<bar>t\<bar> \<le> 8640000000000000)"

text \<open>\<^verbatim>\<open>new Date()\<close>: one reading of the clock.\<close>

definition now :: "state \<Rightarrow> int \<times> state" where
  "now s = (clock s (ticks s), s\<lparr>ticks := Suc (ticks s)\<rparr>)"

text \<open>
  Arithmetic on doubles. A finite double is the rational number it denotes. The result
  of an operation is the exact result rounded to the nearest double, a tie going to the
  even significand: \<open>binade x\<close> is the exponent \<open>e\<close> with \<open>2^e \<le> x < 2^(e+1)\<close>, and the
  doubles of that binade are the multiples of \<open>2^(e-52)\<close>. (The numbers of the program stay
  far from the largest and the smallest doubles.)
\<close>

definition roundEven :: "rat \<Rightarrow> int" where
  "roundEven x =
     (let f = \<lfloor>x\<rfloor>; d = x - of_int f
      in if d < 1 / 2 then f else if 1 / 2 < d then f + 1 else if even f then f else f + 1)"

definition binade :: "rat \<Rightarrow> int" where
  "binade x =
     (case quotient_of x of (p, q) \<Rightarrow>
        let e = bitlen p - bitlen q in if 2 powi e \<le> x then e else e - 1)"

definition double :: "rat \<Rightarrow> rat" where
  "double x =
     (if x = 0 then 0
      else let u = 2 powi (binade \<bar>x\<bar> - 52)
           in sgn x * of_int (roundEven (\<bar>x\<bar> / u)) * u)"

text \<open>The value that \<^verbatim>\<open>n++\<close> leaves in a variable holding the integer \<open>n\<close>.\<close>

definition postIncrement :: "int \<Rightarrow> int" where
  "postIncrement n = \<lfloor>double (of_int n + 1)\<rfloor>"

definition alloc :: "cell \<Rightarrow> cell list \<Rightarrow> ref \<times> cell list" where
  "alloc c h = (length h, h @ [c])"

definition arr :: "cell list \<Rightarrow> ref \<Rightarrow> ref list" where
  "arr h r = (case h ! r of Arr rs \<Rightarrow> rs | Obj t \<Rightarrow> [])"

definition obj :: "cell list \<Rightarrow> ref \<Rightarrow> task" where
  "obj h r = (case h ! r of Obj t \<Rightarrow> t)"

definition isObj :: "cell list \<Rightarrow> ref \<Rightarrow> bool" where
  "isObj h r = (r < length h \<and> (case h ! r of Obj t \<Rightarrow> True | Arr rs \<Rightarrow> False))"

definition isArr :: "cell list \<Rightarrow> ref \<Rightarrow> bool" where
  "isArr h r = (r < length h \<and> (case h ! r of Arr rs \<Rightarrow> True | Obj t \<Rightarrow> False))"

text \<open>
  In a JavaScript heap every reference names a live object of the expected kind. \<open>wellFormed\<close>
  says so for the references the manager holds.
\<close>

definition wellFormed :: "state \<Rightarrow> bool" where
  "wellFormed s = (isArr (heap s) (tasks s) \<and> list_all (isObj (heap s)) (arr (heap s) (tasks s)))"

text \<open>The task records of the store, in sequence order.\<close>

definition view :: "state \<Rightarrow> task list" where
  "view s = map (obj (heap s)) (arr (heap s) (tasks s))"

section \<open>Persistence\<close>

text \<open>
  \<^verbatim>\<open>JSON.stringify\<close> writes a \<^verbatim>\<open>Date\<close> as the text of its \<^verbatim>\<open>toJSON\<close>: the ISO string, or
  \<^verbatim>\<open>null\<close> for an invalid date. Every other field of a task is written as it is, and
  \<^verbatim>\<open>JSON.parse\<close> reads the file back as written. The file is represented by the document
  it denotes.
\<close>

definition jsonDue :: "due \<Rightarrow> due" where
  "jsonDue d =
     (case d of DueDate t \<Rightarrow> if validTime t then DueText (toISOString t) else NoDue
      | _ \<Rightarrow> d)"

definition jsonTask :: "task \<Rightarrow> task" where
  "jsonTask t = t\<lparr>dueDate := jsonDue (dueDate t)\<rparr>"

definition saveToFile :: "state \<Rightarrow> (error + unit) \<times> state" where
  "saveToFile s =
     (case now s of (t, s1) \<Rightarrow>
        if writable s1
        then (Inr (), s1\<lparr>disk := File (Doc (Some (map jsonTask (view s1)))
                                          (Some (nextId s1)) (Some (toISOString t)))\<rparr>)
        else (Inl WriteFailed, s1))"

text \<open>The objects that \<^verbatim>\<open>JSON.parse\<close> creates for an array of task records.\<close>

definition parsedTasks :: "task list \<Rightarrow> cell list \<Rightarrow> ref \<times> cell list" where
  "parsedTasks ts h =
     alloc (Arr [length h ..< length h + length ts]) (h @ map Obj ts)"

definition loadFromFile :: "state \<Rightarrow> (error + unit) \<times> state" where
  "loadFromFile s =
     (case disk s of
        Absent \<Rightarrow> (Inr (), s)
      | Unreadable \<Rightarrow> (Inl ReadFailed, s)
      | File Malformed \<Rightarrow> (Inl ParseFailed, s)
      | File (Doc ts n l) \<Rightarrow>
          (case parsedTasks (case ts of None \<Rightarrow> [] | Some xs \<Rightarrow> xs) (heap s) of
             (a, h) \<Rightarrow>
               (Inr (), s\<lparr>tasks := a,
                          nextId := (case n of None \<Rightarrow> 1 | Some k \<Rightarrow> if k = 0 then 1 else k),
                          heap := h\<rparr>)))"

text \<open>
  The constructor in a new process: an empty array, the counter at 1. It starts
  \<^verbatim>\<open>initialize\<close> without waiting for it; callers wait, so the model runs it as a step
  of its own.
\<close>

definition newTaskManager :: "disk \<Rightarrow> bool \<Rightarrow> bool \<Rightarrow> (nat \<Rightarrow> int) \<Rightarrow> state" where
  "newTaskManager d m w c =
     \<lparr>tasks = 0, nextId = 1, heap = [Arr []], disk = d, dirOk = m, writable = w,
      clock = c, ticks = 0\<rparr>"

text \<open>
  \<^verbatim>\<open>initialize\<close> wraps both the creation of the directory and the load in one
  \<^verbatim>\<open>try\<close> whose \<^verbatim>\<open>catch\<close> logs a message and returns.
\<close>

definition initialize :: "state \<Rightarrow> (error + unit) \<times> state" where
  "initialize s =
     (if \<not> dirOk s then (Inr (), s)
      else case loadFromFile s of
             (Inl e, s') \<Rightarrow> (Inr (), s')
           | (Inr u, s') \<Rightarrow> (Inr (), s'))"

section \<open>Operations\<close>

text \<open>
  \<^verbatim>\<open>addTask\<close> rejects a missing or empty title before it touches anything. The object
  literal then reads the counter, increments it as a double (\<^verbatim>\<open>this.nextId++\<close>) and, for
  the two time stamps, reads the clock twice. Tag lists are copied as values.
\<close>

definition addTask :: "taskData \<Rightarrow> state \<Rightarrow> (error + ref) \<times> state" where
  "addTask d s =
     (case in_title d of
        None \<Rightarrow> (Inl EmptyTitle, s)
      | Some ttl \<Rightarrow>
          if ttl = [] then (Inl EmptyTitle, s)
          else
            (case now (s\<lparr>nextId := postIncrement (nextId s)\<rparr>) of (t1, s1) \<Rightarrow>
            (case now s1 of (t2, s2) \<Rightarrow>
            (case alloc (Obj \<lparr>id' = nextId s,
                             title = ttl,
                             description = or_else (in_description d) [],
                             status = ''pending'',
                             priority = or_else (in_priority d) ''medium'',
                             createdAt = toISOString t1,
                             updatedAt = toISOString t2,
                             tags = (case in_tags d of None \<Rightarrow> [] | Some ts \<Rightarrow> ts),
                             dueDate = (if dueTruthy (in_dueDate d) then in_dueDate d
                                        else NoDue)\<rparr>) (heap s2) of (r, h) \<Rightarrow>
            (case saveToFile
                    (s2\<lparr>heap := list_update h (tasks s2) (Arr (arr h (tasks s2) @ [r]))\<rparr>) of
               (Inl e, s3) \<Rightarrow> (Inl e, s3)
             | (Inr u, s3) \<Rightarrow> (Inr r, s3))))))"


text \<open>
  Two functions of the JavaScript engine are parameters of \<^verbatim>\<open>getTasks\<close> and
  \<^verbatim>\<open>getStatistics\<close>: the sorting algorithm behind \<^verbatim>\<open>Array.prototype.sort\<close>, whose result
  ECMAScript leaves to the implementation when the comparator is not consistent, and the
  parser behind \<^verbatim>\<open>new Date(text)\<close>, whose result is the time value or \<^verbatim>\<open>NaN\<close>. A number
  that may be \<^verbatim>\<open>NaN\<close> is an \<open>int option\<close>.
\<close>

record engine =
  arraySort :: "(ref \<Rightarrow> ref \<Rightarrow> int option) \<Rightarrow> ref list \<Rightarrow> ref list"
  dateParse :: "string \<Rightarrow> int option"

definition dateOf :: "(string \<Rightarrow> int option) \<Rightarrow> due \<Rightarrow> int option" where
  "dateOf parse d =
     (case d of
        NoDue \<Rightarrow> Some 0
      | DueText x \<Rightarrow> parse x
      | DueDate t \<Rightarrow> if validTime t then Some t else None)"

definition minus_num :: "int option \<Rightarrow> int option \<Rightarrow> int option" where
  "minus_num a b =
     (case a of None \<Rightarrow> None | Some x \<Rightarrow> (case b of None \<Rightarrow> None | Some y \<Rightarrow> Some (x - y)))"

definition less_num :: "int option \<Rightarrow> int option \<Rightarrow> bool" where
  "less_num a b =
     (case a of None \<Rightarrow> False | Some x \<Rightarrow> (case b of None \<Rightarrow> False | Some y \<Rightarrow> x < y))"

definition priorityOrder :: "string \<Rightarrow> int option" where
  "priorityOrder p =
     (if p = ''high'' then Some 3 else if p = ''medium'' then Some 2
      else if p = ''low'' then Some 1 else None)"

text \<open>The comparator that \<^verbatim>\<open>getTasks\<close> hands to \<^verbatim>\<open>sort\<close>, for a given \<^verbatim>\<open>sortBy\<close>.\<close>

definition comparator :: "string \<Rightarrow> (string \<Rightarrow> int option) \<Rightarrow> task \<Rightarrow> task \<Rightarrow> int option" where
  "comparator key parse a b =
     (if key = ''createdAt'' then minus_num (parse (createdAt b)) (parse (createdAt a))
      else if key = ''priority''
        then minus_num (priorityOrder (priority b)) (priorityOrder (priority a))
      else if key = ''dueDate''
        then (if \<not> dueTruthy (dueDate a) then Some 1
              else if \<not> dueTruthy (dueDate b) then Some (- 1)
              else minus_num (dateOf parse (dueDate a)) (dateOf parse (dueDate b)))
      else Some 0)"

definition hasTag :: "string option \<Rightarrow> task \<Rightarrow> bool" where
  "hasTag g t = (case g of None \<Rightarrow> False | Some x \<Rightarrow> x \<in> set (tags t))"

text \<open>
  \<^verbatim>\<open>getTasks\<close> copies the array, replaces the copy by a new array for every filter given,
  and sorts the last array in place. It returns the reference of that array.
\<close>

definition filterStep :: "bool \<Rightarrow> (task \<Rightarrow> bool) \<Rightarrow> ref \<times> cell list \<Rightarrow> ref \<times> cell list" where
  "filterStep on P x =
     (case x of (r, h) \<Rightarrow>
        if on then alloc (Arr (filter (\<lambda>y. P (obj h y)) (arr h r))) h else (r, h))"

definition sortStep :: "engine \<Rightarrow> string option \<Rightarrow> ref \<times> cell list \<Rightarrow> ref \<times> cell list" where
  "sortStep e k x =
     (case x of (r, h) \<Rightarrow>
        (case k of
           None \<Rightarrow> (r, h)
         | Some key \<Rightarrow>
             if key = [] then (r, h)
             else (r, list_update h r (Arr (arraySort e
                        (\<lambda>a b. comparator key (dateParse e) (obj h a) (obj h b)) (arr h r))))))"

definition getTasks :: "engine \<Rightarrow> filters \<Rightarrow> state \<Rightarrow> ref \<times> state" where
  "getTasks e f s =
     (case sortStep e (sortBy f)
            (filterStep (truthy (by_tag f)) (hasTag (by_tag f))
              (filterStep (truthy (by_priority f)) (\<lambda>t. Some (priority t) = by_priority f)
                (filterStep (truthy (by_status f)) (\<lambda>t. Some (status t) = by_status f)
                  (alloc (Arr (arr (heap s) (tasks s))) (heap s))))) of
        (r, h) \<Rightarrow> (r, s\<lparr>heap := h\<rparr>))"

primrec findIndex :: "('a \<Rightarrow> bool) \<Rightarrow> 'a list \<Rightarrow> nat option" where
  "findIndex P [] = None"
| "findIndex P (x # xs) = (if P x then Some 0 else map_option Suc (findIndex P xs))"

text \<open>
  The object literal of \<^verbatim>\<open>updateTask\<close>: the old record, then the properties of
  \<^verbatim>\<open>updates\<close> over it, then \<^verbatim>\<open>id\<close>, \<^verbatim>\<open>createdAt\<close> and \<^verbatim>\<open>updatedAt\<close> written last.
\<close>

definition spread :: "task \<Rightarrow> updates \<Rightarrow> task" where
  "spread t u =
     \<lparr>id' = (case up_id u of None \<Rightarrow> id' t | Some v \<Rightarrow> v),
      title = (case up_title u of None \<Rightarrow> title t | Some v \<Rightarrow> v),
      description = (case up_description u of None \<Rightarrow> description t | Some v \<Rightarrow> v),
      status = (case up_status u of None \<Rightarrow> status t | Some v \<Rightarrow> v),
      priority = (case up_priority u of None \<Rightarrow> priority t | Some v \<Rightarrow> v),
      createdAt = (case up_createdAt u of None \<Rightarrow> createdAt t | Some v \<Rightarrow> v),
      updatedAt = (case up_updatedAt u of None \<Rightarrow> updatedAt t | Some v \<Rightarrow> v),
      tags = (case up_tags u of None \<Rightarrow> tags t | Some v \<Rightarrow> v),
      dueDate = (case up_dueDate u of None \<Rightarrow> dueDate t | Some v \<Rightarrow> v)\<rparr>"

definition updateTask :: "int \<Rightarrow> updates \<Rightarrow> state \<Rightarrow> (error + ref) \<times> state" where
  "updateTask i u s =
     (case findIndex (\<lambda>r. id' (obj (heap s) r) = i) (arr (heap s) (tasks s)) of
        None \<Rightarrow> (Inl (NotFound i), s)
      | Some k \<Rightarrow>
          (let old = obj (heap s) (arr (heap s) (tasks s) ! k) in
          (case now s of (t, s1) \<Rightarrow>
          (case alloc (Obj ((spread old u)\<lparr>id' := id' old, createdAt := createdAt old,
                                           updatedAt := toISOString t\<rparr>)) (heap s1) of
             (r, h) \<Rightarrow>
          (case saveToFile
                  (s1\<lparr>heap := list_update h (tasks s1)
                                  (Arr (list_update (arr h (tasks s1)) k r))\<rparr>) of
             (Inl e, s2) \<Rightarrow> (Inl e, s2)
           | (Inr v, s2) \<Rightarrow> (Inr r, s2))))))"



text \<open>
  The object that \<^verbatim>\<open>getStatistics\<close> returns. \<^verbatim>\<open>byStatus\<close> and \<^verbatim>\<open>byPriority\<close> are objects
  whose properties are counters; a counter may be \<^verbatim>\<open>NaN\<close>. \<^verbatim>\<open>completionRate\<close> is the
  number 0 or a text.
\<close>

datatype count = Count int | NaN

datatype rate = RateNumber int | RateText string

record statistics =
  total' :: int
  byStatus :: "string \<rightharpoonup> count"
  byPriority :: "string \<rightharpoonup> count"
  completionRate :: rate
  overdue :: int

text \<open>
  \<^verbatim>\<open>counters[key]++\<close>: an own property is incremented; a property that is not an own one
  reads as \<^verbatim>\<open>undefined\<close> or as an inherited object, so that \<^verbatim>\<open>NaN\<close> is stored under the
  key, except under \<^verbatim>\<open>__proto__\<close>, where the assignment of a number is ignored.
\<close>

definition increment :: "string \<Rightarrow> (string \<rightharpoonup> count) \<Rightarrow> (string \<rightharpoonup> count)" where
  "increment k m =
     (case m k of
        Some (Count n) \<Rightarrow> m(k \<mapsto> Count (n + 1))
      | Some NaN \<Rightarrow> m(k \<mapsto> NaN)
      | None \<Rightarrow> if k = ''__proto__'' then m else m(k \<mapsto> NaN))"

text \<open>
  \<^verbatim>\<open>x.toFixed(2)\<close> for a double \<open>0 \<le> x < 10^21\<close>: the integer \<open>n\<close> nearest to \<open>100 x\<close>, the
  larger one of two, written with a point before its last two digits.
\<close>

fun dec :: "nat \<Rightarrow> string" where
  "dec n = (if n < 10 then [digit (int n)] else dec (n div 10) @ [digit (int (n mod 10))])"

definition toFixed2 :: "rat \<Rightarrow> string" where
  "toFixed2 x =
     (let n = \<lfloor>x * 100 + 1 / 2\<rfloor> in dec (nat (n div 100)) @ ''.'' @ fixed 2 (n mod 100))"

text \<open>
  The completion rate for \<open>c\<close> completed tasks of \<open>t\<close>, computed as the code does: a
  division, a multiplication by 100, \<^verbatim>\<open>toFixed(2)\<close> and the percent sign.
\<close>

definition percent :: "int \<Rightarrow> int \<Rightarrow> string" where
  "percent c t = toFixed2 (double (double (of_int c / of_int t) * 100)) @ ''%''"

text \<open>
  The body of the \<^verbatim>\<open>forEach\<close> of \<^verbatim>\<open>getStatistics\<close> for the reading \<open>nw\<close> of the clock, and
  \<^verbatim>\<open>getStatistics\<close> itself. The counters count tasks of one array, so they stay far
  below \<open>2^53\<close> and the additions are exact.
\<close>

definition tally :: "(string \<Rightarrow> int option) \<Rightarrow> int \<Rightarrow> statistics \<Rightarrow> task \<Rightarrow> statistics" where
  "tally parse nw st t =
     st\<lparr>byStatus := increment (status t) (byStatus st),
        byPriority := increment (priority t) (byPriority st),
        overdue := (if dueTruthy (dueDate t) \<and> less_num (dateOf parse (dueDate t)) (Some nw)
                       \<and> status t \<noteq> ''completed''
                    then overdue st + 1 else overdue st)\<rparr>"

definition getStatistics :: "engine \<Rightarrow> state \<Rightarrow> statistics \<times> state" where
  "getStatistics e s =
     (case now s of (nw, s1) \<Rightarrow>
        let st = foldl (tally (dateParse e) nw)
                   \<lparr>total' = int (length (arr (heap s1) (tasks s1))),
                    byStatus = [''pending'' \<mapsto> Count 0, ''in-progress'' \<mapsto> Count 0,
                                ''completed'' \<mapsto> Count 0],
                    byPriority = [''high'' \<mapsto> Count 0, ''medium'' \<mapsto> Count 0,
                                  ''low'' \<mapsto> Count 0],
                    completionRate = RateNumber 0,
                    overdue = 0\<rparr>
                   (view s1)
        in (if 0 < total' st
            then st\<lparr>completionRate :=
                      (case byStatus st ''completed'' of
                         Some (Count c) \<Rightarrow> RateText (percent c (total' st))
                       | _ \<Rightarrow> RateText ''NaN%'')\<rparr>
            else st, s1))"

section \<open>Example stores\<close>

text \<open>A clock that advances by one millisecond at every reading.\<close>

definition clock0 :: "nat \<Rightarrow> int" where
  "clock0 n = 1700000000000 + int n"

text \<open>A new manager in front of a storage file that does not hold JSON.\<close>

definition corruptStart :: state where
  "corruptStart = newTaskManager (File Malformed) True True clock0"

text \<open>A store with one pending task.\<close>

definition demoTask :: task where
  "demoTask = \<lparr>id' = 1, title = ''write report'', description = [], status = ''pending'',
     priority = ''medium'', createdAt = ''2023-11-14T22:13:20.000Z'',
     updatedAt = ''2023-11-14T22:13:20.000Z'', tags = [], dueDate = NoDue\<rparr>"

definition demoState :: state where
  "demoState = \<lparr>tasks = 0, nextId = 2, heap = [Arr [1], Obj demoTask], disk = Absent,
     dirOk = True, writable = True, clock = clock0, ticks = 0\<rparr>"

definition titleOnly :: "string \<Rightarrow> updates" where
  "titleOnly x = \<lparr>up_id = None, up_title = Some x, up_description = None, up_status = None,
     up_priority = None, up_createdAt = None, up_updatedAt = None, up_tags = None,
     up_dueDate = None\<rparr>"

text \<open>
  Two sorting algorithms an engine may use. Both are insertion sorts; the first looks for
  the place of an element from the left and asks whether it comes before its neighbour,
  the second looks from the right and asks whether the neighbour comes after it.
\<close>

primrec insertLeft :: "('a \<Rightarrow> 'a \<Rightarrow> int option) \<Rightarrow> 'a \<Rightarrow> 'a list \<Rightarrow> 'a list" where
  "insertLeft c x [] = [x]"
| "insertLeft c x (y # ys) =
     (if less_num (c x y) (Some 0) then x # y # ys else y # insertLeft c x ys)"

definition sortLeft :: "('a \<Rightarrow> 'a \<Rightarrow> int option) \<Rightarrow> 'a list \<Rightarrow> 'a list" where
  "sortLeft c xs = foldl (\<lambda>acc x. insertLeft c x acc) [] xs"

primrec insertRight :: "('a \<Rightarrow> 'a \<Rightarrow> int option) \<Rightarrow> 'a \<Rightarrow> 'a list \<Rightarrow> 'a list" where
  "insertRight c x [] = [x]"
| "insertRight c x (y # ys) =
     (if less_num (Some 0) (c y x) then y # insertRight c x ys else x # y # ys)"

definition sortRight :: "('a \<Rightarrow> 'a \<Rightarrow> int option) \<Rightarrow> 'a list \<Rightarrow> 'a list" where
  "sortRight c xs = rev (foldl (\<lambda>acc x. insertRight c x acc) [] xs)"

definition noParse :: "string \<Rightarrow> int option" where
  "noParse x = None"

definition engineLeft :: engine where
  "engineLeft = \<lparr>arraySort = sortLeft, dateParse = noParse\<rparr>"

definition engineRight :: engine where
  "engineRight = \<lparr>arraySort = sortRight, dateParse = noParse\<rparr>"

text \<open>What ECMAScript promises of every engine: the sorted array is a permutation.\<close>

definition permuting :: "engine \<Rightarrow> bool" where
  "permuting e = (\<forall>c xs. mset (arraySort e c xs) = mset xs)"

text \<open>
  What a caller may do with a reference it was given: replace the elements of an array,
  or write the properties of a task object.
\<close>

definition writeArray :: "ref \<Rightarrow> ref list \<Rightarrow> state \<Rightarrow> state" where
  "writeArray r xs s = s\<lparr>heap := list_update (heap s) r (Arr xs)\<rparr>"

definition writeTask :: "ref \<Rightarrow> task \<Rightarrow> state \<Rightarrow> state" where
  "writeTask r t s = s\<lparr>heap := list_update (heap s) r (Obj t)\<rparr>"

definition noFilters :: filters where
  "noFilters = \<lparr>by_status = None, by_priority = None, by_tag = None, sortBy = None\<rparr>"

definition byDueDate :: filters where
  "byDueDate = \<lparr>by_status = None, by_priority = None, by_tag = None,
     sortBy = Some ''dueDate''\<rparr>"

text \<open>A second task, and the store holding both; neither task has a due date.\<close>

definition laterTask :: task where
  "laterTask = \<lparr>id' = 2, title = ''file expenses'', description = [], status = ''pending'',
     priority = ''medium'', createdAt = ''2023-11-14T22:13:21.000Z'',
     updatedAt = ''2023-11-14T22:13:21.000Z'', tags = [], dueDate = NoDue\<rparr>"

definition twoDateless :: state where
  "twoDateless = \<lparr>tasks = 0, nextId = 3, heap = [Arr [1, 2], Obj demoTask, Obj laterTask],
     disk = Absent, dirOk = True, writable = True, clock = clock0, ticks = 0\<rparr>"

text \<open>A due date that is not a \<^verbatim>\<open>Date\<close> object.\<close>

definition plainDue :: "due \<Rightarrow> bool" where
  "plainDue d = (case d of DueDate x \<Rightarrow> False | _ \<Rightarrow> True)"

text \<open>
  The demo driver's first task: its due date is a \<^verbatim>\<open>Date\<close> object, one week after the
  clock's first reading.
\<close>

definition dueTask :: task where
  "dueTask = demoTask\<lparr>dueDate := DueDate 1700604800000\<rparr>"

definition datedState :: state where
  "datedState = \<lparr>tasks = 0, nextId = 2, heap = [Arr [1], Obj dueTask], disk = Absent,
     dirOk = True, writable = True, clock = clock0, ticks = 0\<rparr>"

text \<open>A new manager, in a new process, loading the file that the state \<open>s\<close> left.\<close>

definition reload :: "state \<Rightarrow> (error + unit) \<times> state" where
  "reload s = loadFromFile (newTaskManager (disk s) (dirOk s) (writable s) (clock s))"

definition statusOnly :: "string \<Rightarrow> updates" where
  "statusOnly x = \<lparr>up_id = None, up_title = None, up_description = None, up_status = Some x,
     up_priority = None, up_createdAt = None, up_updatedAt = None, up_tags = None,
     up_dueDate = None\<rparr>"

definition callBob :: taskData where
  "callBob = \<lparr>in_title = Some ''call Bob'', in_description = None, in_priority = None,
     in_tags = None, in_dueDate = NoDue\<rparr>"

text \<open>A store of two tasks, the first completed, the second pending.\<close>

definition doneTask :: task where
  "doneTask = demoTask\<lparr>status := ''completed''\<rparr>"





text \<open>
  A store of four tasks: two completed, one pending and due in the past, one in progress.
\<close>

definition fourTasks :: state where
  "fourTasks = \<lparr>tasks = 0, nextId = 5,
     heap = [Arr [1, 2, 3, 4], Obj doneTask,
             Obj (laterTask\<lparr>dueDate := DueDate 1600000000000\<rparr>),
             Obj (laterTask\<lparr>id' := 3, status := ''in-progress''\<rparr>),
             Obj (doneTask\<lparr>id' := 4\<rparr>)],
     disk = Absent, dirOk = True, writable = True, clock = clock0, ticks = 0\<rparr>"

section \<open>Properties\<close>

subsection \<open>Start-up\<close>

text \<open>
  C1, as the code has it. \<^verbatim>\<open>loadFromFile\<close> tolerates only a missing file: it returns
  normally exactly when the file is neither unreadable nor malformed. \<^verbatim>\<open>initialize\<close>,
  however, catches every failure and never raises; when the file is missing or the load
  fails, it leaves the store as it was constructed.
\<close>

theorem initialize_never_raises:
  "fst (initialize s) = Inr () \<and>
   (fst (loadFromFile s) = Inr ()) = (disk s \<noteq> Unreadable \<and> disk s \<noteq> File Malformed) \<and>
   (disk s = Absent \<or> fst (loadFromFile s) \<noteq> Inr () \<longrightarrow> snd (initialize s) = s)"
  by (auto simp: initialize_def loadFromFile_def parsedTasks_def alloc_def
           split: disk.splits content.splits prod.splits sum.splits)

text \<open>The statement above at a malformed storage file.\<close>

theorem initialize_never_raises_witness:
  "fst (loadFromFile corruptStart) \<noteq> Inr () \<and> fst (initialize corruptStart) = Inr () \<and>
   snd (initialize corruptStart) = corruptStart"
  using initialize_never_raises [of corruptStart]
  by (simp add: corruptStart_def newTaskManager_def loadFromFile_def)

text \<open>
  C1 as stated asks \<^verbatim>\<open>initialize\<close> to pass a failed load on to its caller. On a malformed
  file the load fails with a parse error and \<^verbatim>\<open>initialize\<close> still completes normally.
\<close>

theorem initialize_malformed_counterexample:
  "fst (loadFromFile corruptStart) = Inl ParseFailed \<and> fst (initialize corruptStart) = Inr ()"
  by (simp add: corruptStart_def newTaskManager_def loadFromFile_def initialize_def)

subsection \<open>Updating a task\<close>

lemma findIndex_None: "(findIndex P xs = None) = (\<forall>x \<in> set xs. \<not> P x)"
  by (induction xs) auto

text \<open>
  C7. When no task of the store has the given id, \<^verbatim>\<open>updateTask\<close> fails with the not-found
  error and the whole state, the task sequence and the counter included, is the state
  before the call.
\<close>

theorem updateTask_absent_id:
  "i \<notin> set (map id' (view s)) \<Longrightarrow> updateTask i u s = (Inl (NotFound i), s)"
proof -
  assume "i \<notin> set (map id' (view s))"
  then have "findIndex (\<lambda>r. id' (obj (heap s) r) = i) (arr (heap s) (tasks s)) = None"
    by (auto simp: findIndex_None view_def)
  then show ?thesis by (simp add: updateTask_def)
qed

text \<open>The store with the single task 1 has no task 2.\<close>

theorem updateTask_absent_id_witness:
  "2 \<notin> set (map id' (view demoState)) \<and>
   updateTask 2 (titleOnly ''x'') demoState = (Inl (NotFound 2), demoState)"
proof -
  have h: "2 \<notin> set (map id' (view demoState))"
    by (simp add: view_def demoState_def demoTask_def arr_def obj_def)
  from updateTask_absent_id [OF h] h show ?thesis by simp
qed

subsection \<open>Reading the tasks\<close>

lemma mset_insertLeft: "mset (insertLeft c x ys) = add_mset x (mset ys)"
  by (induction ys) auto

lemma mset_insertRight: "mset (insertRight c x ys) = add_mset x (mset ys)"
  by (induction ys) auto

lemma mset_foldl_insertLeft:
  "mset (foldl (\<lambda>acc x. insertLeft c x acc) acc xs) = mset acc + mset xs"
  by (induction xs arbitrary: acc) (auto simp: mset_insertLeft)

lemma mset_foldl_insertRight:
  "mset (foldl (\<lambda>acc x. insertRight c x acc) acc xs) = mset acc + mset xs"
  by (induction xs arbitrary: acc) (auto simp: mset_insertRight)

lemma permuting_engineLeft: "permuting engineLeft"
  by (simp add: permuting_def engineLeft_def sortLeft_def mset_foldl_insertLeft)

lemma permuting_engineRight: "permuting engineRight"
  by (simp add: permuting_def engineRight_def sortRight_def mset_foldl_insertRight)

text \<open>
  Every step of \<^verbatim>\<open>getTasks\<close> works on an array allocated after the first \<open>n\<close> cells, keeps
  those cells, and keeps the elements within those of the array before.
\<close>

lemma filterStep_frame:
  assumes "filterStep on P (r, h) = (r', h')" and "n \<le> r" and "r < length h"
  shows "n \<le> r' \<and> r' < length h' \<and> take n h' = take n h \<and> length h \<le> length h'
         \<and> set (arr h' r') \<subseteq> set (arr h r)"
  using assms by (auto simp: filterStep_def alloc_def arr_def split: if_splits)

lemma sortStep_frame:
  assumes "sortStep e k (r, h) = (r', h')" and "n \<le> r" and "r < length h"
    and "permuting e"
  shows "n \<le> r' \<and> r' < length h' \<and> take n h' = take n h \<and> length h \<le> length h'
         \<and> set (arr h' r') \<subseteq> set (arr h r)"
proof (cases "k = None \<or> k = Some []")
  case True
  with assms show ?thesis by (auto simp: sortStep_def split: option.splits)
next
  case False
  then obtain key where k: "k = Some key" "key \<noteq> []" by auto
  let ?xs = "arraySort e (\<lambda>a b. comparator key (dateParse e) (obj h a) (obj h b)) (arr h r)"
  have eq: "r' = r" "h' = list_update h r (Arr ?xs)"
    using assms(1) k by (auto simp: sortStep_def)
  have "mset ?xs = mset (arr h r)" using assms(4) by (simp add: permuting_def)
  then have "set ?xs = set (arr h r)" by (metis set_mset_mset)
  then show ?thesis using eq assms(2,3) by (simp add: arr_def)
qed

lemma getTasks_pipeline:
  assumes g: "getTasks e f s = (r, s')" and p: "permuting e"
  shows "s' = s\<lparr>heap := heap s'\<rparr> \<and> length (heap s) \<le> r \<and> r < length (heap s') \<and>
         take (length (heap s)) (heap s') = heap s \<and>
         set (arr (heap s') r) \<subseteq> set (arr (heap s) (tasks s))"
proof -
  let ?n = "length (heap s)"
  let ?xs = "arr (heap s) (tasks s)"
  obtain r1 h1 where s1: "filterStep (truthy (by_status f)) (\<lambda>t. Some (status t) = by_status f)
      (?n, heap s @ [Arr ?xs]) = (r1, h1)"
    by (cases "filterStep (truthy (by_status f)) (\<lambda>t. Some (status t) = by_status f)
      (?n, heap s @ [Arr ?xs])")
  obtain r2 h2 where s2: "filterStep (truthy (by_priority f))
      (\<lambda>t. Some (priority t) = by_priority f) (r1, h1) = (r2, h2)"
    by (cases "filterStep (truthy (by_priority f))
      (\<lambda>t. Some (priority t) = by_priority f) (r1, h1)")
  obtain r3 h3 where s3: "filterStep (truthy (by_tag f)) (hasTag (by_tag f)) (r2, h2) = (r3, h3)"
    by (cases "filterStep (truthy (by_tag f)) (hasTag (by_tag f)) (r2, h2)")
  obtain r4 h4 where s4: "sortStep e (sortBy f) (r3, h3) = (r4, h4)"
    by (cases "sortStep e (sortBy f) (r3, h3)")
  have res: "r = r4" "s' = s\<lparr>heap := h4\<rparr>"
    using g by (simp_all add: getTasks_def alloc_def s1 s2 s3 s4)
  have f0: "arr (heap s @ [Arr ?xs]) ?n = ?xs" by (simp add: arr_def)
  have f1: "?n \<le> r1 \<and> r1 < length h1 \<and> take ?n h1 = take ?n (heap s @ [Arr ?xs]) \<and>
        length (heap s @ [Arr ?xs]) \<le> length h1 \<and> set (arr h1 r1) \<subseteq> set ?xs"
    using filterStep_frame [OF s1, of ?n] f0 by simp
  have f2: "?n \<le> r2 \<and> r2 < length h2 \<and> take ?n h2 = take ?n h1 \<and> length h1 \<le> length h2 \<and>
        set (arr h2 r2) \<subseteq> set (arr h1 r1)"
    using filterStep_frame [OF s2, of ?n] f1 by simp
  have f3: "?n \<le> r3 \<and> r3 < length h3 \<and> take ?n h3 = take ?n h2 \<and> length h2 \<le> length h3 \<and>
        set (arr h3 r3) \<subseteq> set (arr h2 r2)"
    using filterStep_frame [OF s3, of ?n] f2 by simp
  have f4: "?n \<le> r4 \<and> r4 < length h4 \<and> take ?n h4 = take ?n h3 \<and> length h3 \<le> length h4 \<and>
        set (arr h4 r4) \<subseteq> set (arr h3 r3)"
    using sortStep_frame [OF s4 _ _ p, of ?n] f3 by simp
  have "take ?n h4 = heap s" using f1 f2 f3 f4 by simp
  moreover have "set (arr h4 r4) \<subseteq> set ?xs" using f1 f2 f3 f4 by blast
  ultimately show ?thesis using res f4 by simp
qed

lemma take_nth_eq: "take n h' = h \<Longrightarrow> i < length h \<Longrightarrow> h' ! i = h ! i"
  by (metis nth_take length_take min_less_iff_conj)

text \<open>
  C2, as the code has it. \<^verbatim>\<open>getTasks\<close> leaves the store as it is and returns a new array:
  whatever a caller writes into that array, the store's sequence and records stay the same.
  The elements of the array, however, are the store's own task objects, not copies: a
  caller that writes a record \<open>t\<close> into a returned task has written it into the store,
  at every position where the store holds that task.
\<close>

theorem getTasks_shares_records:
  assumes w: "wellFormed s" and p: "permuting e" and g: "getTasks e f s = (r, s')"
  shows "tasks s' = tasks s \<and> nextId s' = nextId s \<and> view s' = view s \<and> r \<noteq> tasks s' \<and>
         (\<forall>xs. view (writeArray r xs s') = view s) \<and>
         (\<forall>x \<in> set (arr (heap s') r). \<forall>t.
            x \<in> set (arr (heap s) (tasks s)) \<and>
            view (writeTask x t s') =
              map (\<lambda>y. if y = x then t else obj (heap s) y) (arr (heap s) (tasks s)))"
proof -
  let ?n = "length (heap s)"
  let ?xs = "arr (heap s) (tasks s)"
  from getTasks_pipeline [OF g p]
  have st: "s' = s\<lparr>heap := heap s'\<rparr>" and lo: "?n \<le> r" and hi: "r < length (heap s')"
    and tk: "take ?n (heap s') = heap s" and sub: "set (arr (heap s') r) \<subseteq> set ?xs"
    by simp_all
  have same: "\<And>i. i < ?n \<Longrightarrow> heap s' ! i = heap s ! i"
    using tk by (rule take_nth_eq)
  have ta: "tasks s < ?n" and isarr: "isArr (heap s) (tasks s)"
    using w by (simp_all add: wellFormed_def isArr_def)
  have el: "\<And>x. x \<in> set ?xs \<Longrightarrow> x < ?n \<and> isObj (heap s) x"
    using w by (auto simp: wellFormed_def list_all_iff isObj_def)
  have t': "tasks s' = tasks s" and n': "nextId s' = nextId s"
    using st by (metis state.select_convs state.surjective state.update_convs)+
  have len: "?n \<le> length (heap s')" using lo hi by simp
  have a': "arr (heap s') (tasks s) = ?xs" using same [OF ta] by (simp add: arr_def)
  have o': "\<And>x. x \<in> set ?xs \<Longrightarrow> obj (heap s') x = obj (heap s) x"
    using same el by (simp add: obj_def)
  have v: "view s' = view s" using a' o' t' by (simp add: view_def)
  have ne: "r \<noteq> tasks s'" using t' ta lo by simp
  have wa: "view (writeArray r xs s') = view s" for xs
  proof -
    have "arr (list_update (heap s') r (Arr xs)) (tasks s) = ?xs"
      using a' ne t' by (simp add: arr_def)
    moreover have "obj (list_update (heap s') r (Arr xs)) x = obj (heap s) x"
      if "x \<in> set ?xs" for x
    proof -
      have "x \<noteq> r" using el [OF that] lo by simp
      then show ?thesis using o' [OF that] by (simp add: obj_def)
    qed
    ultimately show ?thesis using t' by (simp add: view_def writeArray_def)
  qed
  have wt: "x \<in> set ?xs \<and> view (writeTask x t s') =
              map (\<lambda>y. if y = x then t else obj (heap s) y) ?xs"
    if x: "x \<in> set (arr (heap s') r)" for x t
  proof -
    have xin: "x \<in> set ?xs" using x sub by blast
    have xn: "x < ?n" and xo: "isObj (heap s) x" using el [OF xin] by simp_all
    have "x \<noteq> tasks s" using xo isarr by (auto simp: isObj_def isArr_def split: cell.splits)
    then have "arr (list_update (heap s') x (Obj t)) (tasks s) = ?xs"
      using a' by (simp add: arr_def)
    moreover have "obj (list_update (heap s') x (Obj t)) y = (if y = x then t else obj (heap s) y)"
      if "y \<in> set ?xs" for y
    proof (cases "y = x")
      case True
      then show ?thesis using xn len by (simp add: obj_def)
    next
      case False
      then show ?thesis using o' [OF that] by (simp add: obj_def)
    qed
    ultimately show ?thesis using t' xin by (simp add: view_def writeTask_def)
  qed
  show ?thesis using t' n' v ne wa wt by blast
qed

lemma wf_demoState: "wellFormed demoState"
  by (simp add: wellFormed_def demoState_def isArr_def isObj_def arr_def)

lemma getTasks_demoState:
  "getTasks engineLeft noFilters demoState =
     (2, demoState\<lparr>heap := [Arr [1], Obj demoTask, Arr [1]]\<rparr>)"
  by (simp add: getTasks_def noFilters_def demoState_def filterStep_def sortStep_def
        truthy_def alloc_def arr_def)

text \<open>
  The statement above for the store with one task: the result is the new array at
  reference 2; emptying it leaves the store alone, writing a title through its element
  changes the store's record.
\<close>

theorem getTasks_shares_records_witness:
  "wellFormed demoState \<and> permuting engineLeft \<and>
   fst (getTasks engineLeft noFilters demoState) = 2 \<and>
   view (snd (getTasks engineLeft noFilters demoState)) = view demoState \<and>
   view (writeArray 2 [] (snd (getTasks engineLeft noFilters demoState))) = view demoState \<and>
   view (writeTask 1 (demoTask\<lparr>title := ''changed''\<rparr>)
           (snd (getTasks engineLeft noFilters demoState))) =
     [demoTask\<lparr>title := ''changed''\<rparr>]"
proof -
  let ?s' = "demoState\<lparr>heap := [Arr [1], Obj demoTask, Arr [1]]\<rparr>"
  have a: "arr (heap ?s') 2 = [1]" "arr (heap demoState) (tasks demoState) = [1]"
    by (simp_all add: arr_def demoState_def)
  from getTasks_shares_records [OF wf_demoState permuting_engineLeft getTasks_demoState]
  show ?thesis
    using a wf_demoState permuting_engineLeft getTasks_demoState by simp
qed

text \<open>
  C2 as stated asks that a change to a returned task record leaves the store's record
  unchanged. In the store with one task, the task returned by \<^verbatim>\<open>getTasks\<close> is the object
  at reference 1; after a caller has set its title, the store's record has the new title.
\<close>

theorem getTasks_copy_counterexample:
  "arr (heap (snd (getTasks engineLeft noFilters demoState)))
       (fst (getTasks engineLeft noFilters demoState)) = [1] \<and>
   map title (view (snd (getTasks engineLeft noFilters demoState))) = [''write report''] \<and>
   map title (view (writeTask 1 (demoTask\<lparr>title := ''changed''\<rparr>)
        (snd (getTasks engineLeft noFilters demoState)))) = [''changed'']"
  unfolding getTasks_demoState
  by (simp add: arr_def view_def writeTask_def obj_def demoState_def demoTask_def)

text \<open>
  C3 at its failing input, two tasks without a due date. The comparator answers 1 for
  the pair in either order: each task is to come after the other. The order of the result
  is then the sorting algorithm's choice, and the two insertion sorts return the two
  tasks in opposite orders.
\<close>

theorem dueDate_comparator_two_dateless:
  "comparator ''dueDate'' noParse demoTask laterTask = Some 1 \<and>
   comparator ''dueDate'' noParse laterTask demoTask = Some 1 \<and>
   arr (heap (snd (getTasks engineLeft byDueDate twoDateless)))
       (fst (getTasks engineLeft byDueDate twoDateless)) = [1, 2] \<and>
   arr (heap (snd (getTasks engineRight byDueDate twoDateless)))
       (fst (getTasks engineRight byDueDate twoDateless)) = [2, 1]"
  by (simp add: comparator_def dueTruthy_def demoTask_def laterTask_def getTasks_def
        byDueDate_def twoDateless_def filterStep_def sortStep_def truthy_def alloc_def
        arr_def obj_def engineLeft_def engineRight_def sortLeft_def sortRight_def
        less_num_def)

subsection \<open>Saving and loading\<close>

lemma map_obj_parsed:
  "map (obj (pre @ map Obj ts @ post)) [length pre ..< length pre + length ts] = ts"
proof (rule nth_equalityI)
  show "length (map (obj (pre @ map Obj ts @ post)) [length pre ..< length pre + length ts])
          = length ts" by simp
next
  fix i
  assume "i < length (map (obj (pre @ map Obj ts @ post)) [length pre ..< length pre + length ts])"
  then have i: "i < length ts" by simp
  then have "(pre @ map Obj ts @ post) ! (length pre + i) = Obj (ts ! i)"
    by (simp add: nth_append)
  then show "map (obj (pre @ map Obj ts @ post)) [length pre ..< length pre + length ts] ! i
               = ts ! i"
    using i by (simp add: obj_def)
qed

lemma view_loaded:
  assumes "disk s = File (Doc (Some ts) (Some n) l)"
  shows "fst (loadFromFile s) = Inr () \<and> 
         view (snd (loadFromFile s)) = ts \<and>
         nextId (snd (loadFromFile s)) = (if n = 0 then 1 else n)"
proof -
  have "map (obj (heap s @ map Obj ts @ [Arr [length (heap s) ..< length (heap s) + length ts]]))
          [length (heap s) ..< length (heap s) + length ts] = ts"
    by (rule map_obj_parsed)
  then show ?thesis using assms
    by (simp add: loadFromFile_def parsedTasks_def alloc_def view_def arr_def nth_append)
qed

lemma jsonDue_plain: "plainDue d \<Longrightarrow> jsonDue d = d"
  by (cases d) (simp_all add: plainDue_def jsonDue_def)

lemma jsonTask_plain: "list_all (\<lambda>t. plainDue (dueDate t)) xs \<Longrightarrow> map jsonTask xs = xs"
  by (induction xs) (simp_all add: jsonTask_def jsonDue_plain)

lemma reload_after_save:
  assumes "writable s"
  shows "fst (saveToFile s) = Inr () \<and>
         fst (reload (snd (saveToFile s))) = Inr () \<and>
         view (snd (reload (snd (saveToFile s)))) = map jsonTask (view s) \<and>
         nextId (snd (reload (snd (saveToFile s)))) = (if nextId s = 0 then 1 else nextId s)"
proof -
  let ?d = "File (Doc (Some (map jsonTask (view s))) (Some (nextId s))
                  (Some (toISOString (clock s (ticks s)))))"
  have sv: "fst (saveToFile s) = Inr ()" "disk (snd (saveToFile s)) = ?d"
    using assms by (simp_all add: saveToFile_def now_def view_def)
  have "disk (newTaskManager (disk (snd (saveToFile s))) m w c) = ?d" for m w c
    using sv by (simp add: newTaskManager_def)
  from view_loaded [OF this]
  have ld: "fst (reload (snd (saveToFile s))) = Inr ()"
      "view (snd (reload (snd (saveToFile s)))) = map jsonTask (view s)"
      "nextId (snd (reload (snd (saveToFile s)))) = (if nextId s = 0 then 1 else nextId s)"
    by (simp_all add: reload_def)
  show ?thesis using sv ld by simp
qed

text \<open>
  C4, as the code has it. After a successful save, a new manager that loads the file holds
  the task sequence as JSON renders it: every task in order and field by field, except
  that a due date held as a \<^verbatim>\<open>Date\<close> object comes back as its ISO text (\<^verbatim>\<open>null\<close> when
  the date is invalid). When no task holds a \<^verbatim>\<open>Date\<close> object the sequence is identical.
  The counter is the same, except that a counter of 0 is loaded as 1.
\<close>

theorem save_then_load:
  assumes "writable s"
  shows "fst (saveToFile s) = Inr () \<and>
         fst (reload (snd (saveToFile s))) = Inr () \<and>
         view (snd (reload (snd (saveToFile s)))) = map jsonTask (view s) \<and>
         nextId (snd (reload (snd (saveToFile s)))) = (if nextId s = 0 then 1 else nextId s) \<and>
         (list_all (\<lambda>t. plainDue (dueDate t)) (view s) \<longrightarrow>
            view (snd (reload (snd (saveToFile s)))) = view s)"
  using reload_after_save [OF assms] by (simp add: jsonTask_plain)

lemma view_demoState: "view demoState = [demoTask]"
  by (simp add: view_def demoState_def arr_def obj_def)

text \<open>The statement above for the store with one task that has no due date.\<close>

theorem save_then_load_witness:
  "writable demoState \<and> list_all (\<lambda>t. plainDue (dueDate t)) (view demoState) \<and>
   fst (saveToFile demoState) = Inr () \<and>
   fst (reload (snd (saveToFile demoState))) = Inr () \<and>
   view (snd (reload (snd (saveToFile demoState)))) = [demoTask] \<and>
   nextId (snd (reload (snd (saveToFile demoState)))) = 2"
proof -
  have w: "writable demoState" by (simp add: demoState_def)
  have p: "list_all (\<lambda>t. plainDue (dueDate t)) (view demoState)"
    by (simp add: view_demoState demoTask_def plainDue_def)
  have n: "nextId demoState = 2" by (simp add: demoState_def)
  note t = save_then_load [OF w]
  from t p have "view (snd (reload (snd (saveToFile demoState)))) = view demoState"
    by blast
  with t show ?thesis using w p n view_demoState by simp
qed

lemma iso_due: "toISOString 1700604800000 = ''2023-11-21T22:13:20.000Z''"
  by code_simp

lemma view_datedState: "view datedState = [dueTask]"
  by (simp add: view_def datedState_def arr_def obj_def)

lemma jsonTask_dueTask:
  "dueDate (jsonTask dueTask) = DueText ''2023-11-21T22:13:20.000Z''"
  by (simp add: jsonTask_def jsonDue_def dueTask_def validTime_def iso_due)

text \<open>
  C4 as stated asks for tasks equal field by field, the due date included. The store
  holding the demo driver's task has a \<^verbatim>\<open>Date\<close> object as due date; after saving and
  loading, the due date is a text.
\<close>

theorem save_then_load_date_counterexample:
  "map dueDate (view datedState) = [DueDate 1700604800000] \<and>
   map dueDate (view (snd (reload (snd (saveToFile datedState))))) =
     [DueText ''2023-11-21T22:13:20.000Z'']"
proof -
  have w: "writable datedState" by (simp add: datedState_def)
  have "view (snd (reload (snd (saveToFile datedState)))) = map jsonTask (view datedState)"
    using reload_after_save [OF w] by simp
  then show ?thesis
    by (simp add: view_datedState jsonTask_dueTask) (simp add: dueTask_def)
qed

subsection \<open>Rounding\<close>

text \<open>Rounding to a double changes a positive number by at most a \<open>2^53\<close>-th of it.\<close>

lemma roundEven_error: "\<bar>of_int (roundEven x) - x\<bar> \<le> 1 / 2"
proof -
  have "of_int \<lfloor>x\<rfloor> \<le> x" "x < of_int \<lfloor>x\<rfloor> + 1" by linarith+
  then show ?thesis by (auto simp: roundEven_def Let_def)
qed

lemma powi_nat: "0 \<le> e \<Longrightarrow> (2::rat) powi e = 2 ^ nat e"
  by (simp add: power_int_def)

lemma binade_le:
  assumes "0 < x"
  shows "2 powi (binade x) \<le> x"
proof -
  obtain p q where pq: "quotient_of x = (p, q)" by (cases "quotient_of x")
  then have x: "x = of_int p / of_int q" and q: "0 < q"
    using quotient_of_div quotient_of_denom_pos by blast+
  have p: "0 < p" using assms x q by (simp add: zero_less_divide_iff)
  let ?a = "bitlen p" and ?b = "bitlen q"
  show ?thesis
  proof (cases "2 powi (?a - ?b) \<le> x")
    case True
    then show ?thesis using pq by (simp add: binade_def)
  next
    case False
    have a1: "1 \<le> ?a" and b1: "1 \<le> ?b" using p q
      by (metis bitlen_eq_zero_iff bitlen_nonneg linorder_not_less not_less_iff_gr_or_eq
                zle_add1_eq_le zless_add1_eq add.commute add_0)+
    have "(2::int) ^ nat (?a - 1) \<le> p" using bitlen_bounds [OF p] by simp
    then have lo: "(2::rat) ^ nat (?a - 1) \<le> of_int p"
      by (metis of_int_le_iff of_int_numeral of_int_power)
    have "q < 2 ^ nat ?b" using bitlen_bounds [OF q] by simp
    then have hi: "of_int q < (2::rat) ^ nat ?b"
      by (metis of_int_less_iff of_int_numeral of_int_power)
    have "?a - ?b - 1 = (?a - 1) - ?b" by simp
    then have "(2::rat) powi (?a - ?b - 1) = 2 powi (?a - 1) / 2 powi ?b"
      by (simp only: power_int_diff [of "2::rat"]) (simp add: power_int_diff)
    also have "\<dots> = 2 ^ nat (?a - 1) / 2 ^ nat ?b"
      using a1 b1 by (simp add: powi_nat)
    also have "\<dots> \<le> of_int p / of_int q"
      using lo hi q p by (intro frac_le) simp_all
    finally have "2 powi (?a - ?b - 1) \<le> x" using x by simp
    then show ?thesis using pq False by (simp add: binade_def)
  qed
qed

lemma double_error:
  assumes "0 < x"
  shows "\<bar>double x - x\<bar> \<le> x / 2 ^ 53"
proof -
  let ?u = "(2::rat) powi (binade x - 52)"
  have u: "0 < ?u" by simp
  have d: "double x = of_int (roundEven (x / ?u)) * ?u"
    using assms by (simp add: double_def Let_def)
  have "(of_int (roundEven (x / ?u)) - x / ?u) * ?u = double x - x"
    using u by (simp add: d left_diff_distrib)
  then have "\<bar>double x - x\<bar> = \<bar>(of_int (roundEven (x / ?u)) - x / ?u) * ?u\<bar>"
    by simp
  also have "\<dots> = \<bar>of_int (roundEven (x / ?u)) - x / ?u\<bar> * ?u"
    using u by (simp only: abs_mult abs_of_pos)
  also have "\<dots> \<le> 1 / 2 * ?u"
    using roundEven_error [of "x / ?u"] u by (intro mult_right_mono) simp_all
  also have "\<dots> = 2 powi (binade x) / 2 ^ 53"
    by (simp add: power_int_diff)
  also have "\<dots> \<le> x / 2 ^ 53"
    using binade_le [OF assms] by (intro divide_right_mono) simp_all
  finally show ?thesis .
qed


lemma double_zero: "double 0 = 0"
  by (simp add: double_def)

lemma roundEven_int: "roundEven (of_int k) = k"
  by (simp add: roundEven_def)

lemma double_int:
  assumes "\<bar>m\<bar> < 2 ^ 53"
  shows "double (of_int m) = of_int m"
proof (cases "m = 0")
  case True
  then show ?thesis by (simp add: double_zero)
next
  case False
  define x :: rat where "x = \<bar>of_int m\<bar>"
  have xp: "0 < x" using False by (simp add: x_def)
  have xi: "x = of_int \<bar>m\<bar>" by (simp add: x_def)
  have "rat_of_int \<bar>m\<bar> < of_int (2 ^ 53)" using assms by (simp only: of_int_less_iff)
  then have xb: "x < 2 ^ 53" using xi by simp
  define e where "e = binade x"
  have "(2::rat) powi e < 2 powi 53" using binade_le [OF xp] xb by (simp add: e_def)
  have e: "e < 53"
  proof (rule ccontr)
    assume "\<not> e < 53"
    then have "(2::rat) powi 53 \<le> 2 powi e" by (intro power_int_increasing) simp_all
    with \<open>(2::rat) powi e < 2 powi 53\<close> show False by simp
  qed
  define k where "k = \<bar>m\<bar> * 2 ^ nat (52 - e)"
  have u: "(2::rat) powi (e - 52) = 1 / 2 ^ nat (52 - e)"
    using e by (simp add: power_int_def field_simps)
  have "x / 2 powi (e - 52) = of_int k" by (simp add: u xi k_def)
  then have r: "roundEven (x / 2 powi (e - 52)) = k" by (simp only: roundEven_int)
  have "of_int k * 2 powi (e - 52) = x" by (simp add: u xi k_def)
  then have "double (of_int m) = sgn (of_int m) * x"
    using False r by (simp add: double_def Let_def x_def [symmetric] e_def [symmetric] mult.assoc)
  then show ?thesis by (simp add: x_def sgn_mult_abs)
qed

lemma double_2_53: "double 9007199254740992 = 9007199254740992"
  by code_simp

text \<open>
  Below \<open>2^53\<close> in absolute value the increment is exact; at \<open>2^53\<close> the counter stays
  where it is.
\<close>

lemma postIncrement_exact:
  assumes "\<bar>n\<bar> < 2 ^ 53"
  shows "postIncrement n = n + 1"
proof (cases "n + 1 = 2 ^ 53")
  case True
  then have "n = 9007199254740991" by simp
  then show ?thesis by (simp add: postIncrement_def double_2_53)
next
  case False
  then have "\<bar>n + 1\<bar> < 2 ^ 53" using assms by simp
  from double_int [OF this] show ?thesis by (simp add: postIncrement_def)
qed

lemma postIncrement_stuck: "postIncrement (2 ^ 53) = 2 ^ 53"
  by code_simp

subsection \<open>Adding and updating\<close>

text \<open>What \<^verbatim>\<open>saveToFile\<close> leaves alone, and how its outcome decides the caller's.\<close>

lemma saveToFile_frame:
  "fst (saveToFile s) = (if writable s then Inr () else Inl WriteFailed) \<and>
   heap (snd (saveToFile s)) = heap s \<and> tasks (snd (saveToFile s)) = tasks s \<and>
   nextId (snd (saveToFile s)) = nextId s \<and> ticks (snd (saveToFile s)) = Suc (ticks s) \<and>
   clock (snd (saveToFile s)) = clock s \<and> writable (snd (saveToFile s)) = writable s"
  by (simp add: saveToFile_def now_def)

lemma save_and_return:
  "(case saveToFile x of (Inl e, s2) \<Rightarrow> (Inl e, s2) | (Inr v, s2) \<Rightarrow> (Inr r, s2)) =
     ((if writable x then Inr r else Inl WriteFailed), snd (saveToFile x))"
  by (simp add: saveToFile_def now_def)

lemma view_frame:
  "heap s' = heap s \<Longrightarrow> tasks s' = tasks s \<Longrightarrow> view s' = view s"
  by (simp add: view_def)

lemma wf_frame:
  "heap s' = heap s \<Longrightarrow> tasks s' = tasks s \<Longrightarrow> wellFormed s' = wellFormed s"
  by (simp add: wellFormed_def)

lemma wf_parts:
  assumes "wellFormed s"
  shows "tasks s < length (heap s)" and "heap s ! tasks s = Arr (arr (heap s) (tasks s))"
    and "\<And>x. x \<in> set (arr (heap s) (tasks s)) \<Longrightarrow>
           x < length (heap s) \<and> x \<noteq> tasks s \<and> isObj (heap s) x"
  using assms
  by (auto simp: wellFormed_def isArr_def isObj_def arr_def obj_def list_all_iff split: cell.splits)

text \<open>The heap after a new object has been allocated and the store's array rewritten.\<close>

lemma rewritten_array:
  fixes t :: task
  assumes w: "wellFormed s" and ys: "set ys \<subseteq> insert (length (heap s)) (set (arr (heap s) (tasks s)))"
  defines "h \<equiv> list_update (heap s @ [Obj t]) (tasks s) (Arr ys)"
  shows "arr h (tasks s) = ys"
    and "map (obj h) ys = map (\<lambda>y. if y = length (heap s) then t else obj (heap s) y) ys"
    and "isArr h (tasks s)" and "list_all (isObj h) ys" and "obj h (length (heap s)) = t"
proof -
  note p = wf_parts [OF w]
  show a: "arr h (tasks s) = ys" using p(1) by (simp add: h_def arr_def)
  have o: "obj h y = (if y = length (heap s) then t else obj (heap s) y) \<and> isObj h y"
    if "y \<in> set ys" for y
  proof (cases "y = length (heap s)")
    case True
    then show ?thesis using p(1) by (simp add: h_def obj_def isObj_def)
  next
    case False
    then have "y \<in> set (arr (heap s) (tasks s))" using that ys by blast
    from p(3) [OF this] have y: "y < length (heap s)" "y \<noteq> tasks s" "isObj (heap s) y"
      by simp_all
    then have "h ! y = heap s ! y" "y < length h" by (simp_all add: h_def nth_append)
    then show ?thesis using False y(3) by (simp add: obj_def isObj_def)
  qed
  then show "map (obj h) ys = map (\<lambda>y. if y = length (heap s) then t else obj (heap s) y) ys"
    by simp
  show "isArr h (tasks s)" using p(1) by (simp add: h_def isArr_def)
  show "list_all (isObj h) ys" using o by (simp add: list_all_iff)
  show "obj h (length (heap s)) = t" using p(1) by (simp add: h_def obj_def)
qed

lemma addTask_effect:
  fixes d :: taskData
  assumes w: "wellFormed s" and b: "\<bar>nextId s\<bar> < 2 ^ 53"
    and d: "in_title d = Some ttl" and ne: "ttl \<noteq> []"
  defines "t \<equiv> \<lparr>id' = nextId s, title = ttl, description = or_else (in_description d) [],
       status = ''pending'', priority = or_else (in_priority d) ''medium'',
       createdAt = toISOString (clock s (ticks s)),
       updatedAt = toISOString (clock s (Suc (ticks s))),
       tags = (case in_tags d of None \<Rightarrow> [] | Some ts \<Rightarrow> ts),
       dueDate = (if dueTruthy (in_dueDate d) then in_dueDate d else NoDue)\<rparr>"
  shows "fst (addTask d s) = (if writable s then Inr (length (heap s)) else Inl WriteFailed) \<and>
         view (snd (addTask d s)) = view s @ [t] \<and>
         obj (heap (snd (addTask d s))) (length (heap s)) = t \<and>
         nextId (snd (addTask d s)) = nextId s + 1 \<and> wellFormed (snd (addTask d s))"
proof -
  let ?n = "length (heap s)"
  let ?xs = "arr (heap s) (tasks s)"
  let ?h = "list_update (heap s @ [Obj t]) (tasks s) (Arr (?xs @ [?n]))"
  let ?s2 = "s\<lparr>nextId := nextId s + 1, ticks := Suc (Suc (ticks s)), heap := ?h\<rparr>"
  note p = wf_parts [OF w]
  have a1: "arr (heap s @ [Obj t]) (tasks s) = ?xs" using p(1) by (simp add: arr_def nth_append)
  have run: "addTask d s =
      ((if writable s then Inr ?n else Inl WriteFailed), snd (saveToFile ?s2))"
    using d ne a1
    by (simp add: addTask_def now_def alloc_def save_and_return t_def postIncrement_exact [OF b])
  have sub: "set (?xs @ [?n]) \<subseteq> insert ?n (set ?xs)" by auto
  note r = rewritten_array [OF w sub, of t]
  have "\<And>y. y \<in> set ?xs \<Longrightarrow> y \<noteq> ?n" using p(3) by auto
  then have "map (obj ?h) (?xs @ [?n]) = map (obj (heap s)) ?xs @ [t]"
    using r(2) by simp
  then have v: "view ?s2 = view s @ [t]" using r(1) by (simp add: view_def)
  have wf2: "wellFormed ?s2" using r(1,3,4) by (simp add: wellFormed_def)
  have fr: "heap (snd (saveToFile ?s2)) = heap ?s2" "tasks (snd (saveToFile ?s2)) = tasks ?s2"
      "nextId (snd (saveToFile ?s2)) = nextId ?s2"
    using saveToFile_frame [of ?s2] by simp_all
  have "view (snd (saveToFile ?s2)) = view s @ [t]" using view_frame [OF fr(1,2)] v by simp
  moreover have "wellFormed (snd (saveToFile ?s2))" using wf_frame [OF fr(1,2)] wf2 by simp
  moreover have "obj (heap (snd (saveToFile ?s2))) ?n = t" using fr(1) r(5) by simp
  ultimately show ?thesis using run fr(3) by simp
qed


lemma findIndex_Some:
  "findIndex P xs = Some k \<Longrightarrow> k < length xs \<and> P (xs ! k) \<and> (\<forall>j < k. \<not> P (xs ! j))"
proof (induction xs arbitrary: k)
  case Nil
  then show ?case by simp
next
  case (Cons x xs)
  show ?case
  proof (cases "P x")
    case True
    with Cons.prems show ?thesis by simp
  next
    case False
    with Cons.prems obtain k' where k': "findIndex P xs = Some k'" "k = Suc k'" by auto
    from Cons.IH [OF k'(1)] False k'(2) show ?thesis by (auto simp: less_Suc_eq_0_disj)
  qed
qed

lemma findIndex_present:
  assumes "i \<in> set (map id' (view s))"
  shows "\<exists>k. findIndex (\<lambda>r. id' (obj (heap s) r) = i) (arr (heap s) (tasks s)) = Some k"
proof (cases "findIndex (\<lambda>r. id' (obj (heap s) r) = i) (arr (heap s) (tasks s))")
  case None
  then show ?thesis using assms by (auto simp: findIndex_None view_def)
next
  case (Some k)
  then show ?thesis by simp
qed

lemma updateTask_effect:
  fixes u :: updates
  assumes w: "wellFormed s"
    and f: "findIndex (\<lambda>r. id' (obj (heap s) r) = i) (arr (heap s) (tasks s)) = Some k"
  defines "t \<equiv> (spread (view s ! k) u)\<lparr>id' := id' (view s ! k),
                   createdAt := createdAt (view s ! k),
                   updatedAt := toISOString (clock s (ticks s))\<rparr>"
  shows "k < length (view s) \<and> id' (view s ! k) = i \<and>
         fst (updateTask i u s) = (if writable s then Inr (length (heap s)) else Inl WriteFailed) \<and>
         view (snd (updateTask i u s)) = list_update (view s) k t \<and>
         obj (heap (snd (updateTask i u s))) (length (heap s)) = t \<and>
         nextId (snd (updateTask i u s)) = nextId s \<and> wellFormed (snd (updateTask i u s))"
proof -
  let ?n = "length (heap s)"
  let ?xs = "arr (heap s) (tasks s)"
  let ?h = "list_update (heap s @ [Obj t]) (tasks s) (Arr (list_update ?xs k ?n))"
  let ?s2 = "s\<lparr>ticks := Suc (ticks s), heap := ?h\<rparr>"
  note p = wf_parts [OF w]
  from findIndex_Some [OF f] have k: "k < length ?xs" "id' (obj (heap s) (?xs ! k)) = i"
    by simp_all
  have vk: "view s ! k = obj (heap s) (?xs ! k)" using k(1) by (simp add: view_def)
  have a1: "arr (heap s @ [Obj t]) (tasks s) = ?xs" using p(1) by (simp add: arr_def nth_append)
  have run: "updateTask i u s =
      ((if writable s then Inr ?n else Inl WriteFailed), snd (saveToFile ?s2))"
    using f a1 vk by (simp add: updateTask_def now_def alloc_def save_and_return t_def Let_def)
  have sub: "set (list_update ?xs k ?n) \<subseteq> insert ?n (set ?xs)"
    by (rule set_update_subset_insert)
  note r = rewritten_array [OF w sub, of t]
  have nn: "\<And>y. y \<in> set ?xs \<Longrightarrow> y \<noteq> ?n" using p(3) by auto
  have "map (obj ?h) (list_update ?xs k ?n) = list_update (map (obj (heap s)) ?xs) k t"
  proof (rule nth_equalityI)
    show "length (map (obj ?h) (list_update ?xs k ?n)) =
          length (list_update (map (obj (heap s)) ?xs) k t)" by simp
  next
    fix j assume "j < length (map (obj ?h) (list_update ?xs k ?n))"
    then have j: "j < length ?xs" by simp
    have "map (obj ?h) (list_update ?xs k ?n) ! j =
          map (\<lambda>y. if y = ?n then t else obj (heap s) y) (list_update ?xs k ?n) ! j"
      by (simp only: r(2))
    also have "\<dots> = (\<lambda>y. if y = ?n then t else obj (heap s) y) (list_update ?xs k ?n ! j)"
      using j by simp
    also have "\<dots> = list_update (map (obj (heap s)) ?xs) k t ! j"
    proof (cases "j = k")
      case True
      then show ?thesis using j by simp
    next
      case False
      then have "list_update ?xs k ?n ! j = ?xs ! j" by simp
      moreover have "?xs ! j \<noteq> ?n" using nn j by simp
      ultimately show ?thesis using False j by simp
    qed
    finally show "map (obj ?h) (list_update ?xs k ?n) ! j =
        list_update (map (obj (heap s)) ?xs) k t ! j" .
  qed
  then have v: "view ?s2 = list_update (view s) k t" using r(1) by (simp add: view_def)
  have wf2: "wellFormed ?s2" using r(1,3,4) by (simp add: wellFormed_def)
  have fr: "heap (snd (saveToFile ?s2)) = heap ?s2" "tasks (snd (saveToFile ?s2)) = tasks ?s2"
      "nextId (snd (saveToFile ?s2)) = nextId ?s2"
    using saveToFile_frame [of ?s2] by simp_all
  have "view (snd (saveToFile ?s2)) = list_update (view s) k t"
    using view_frame [OF fr(1,2)] v by simp
  moreover have "wellFormed (snd (saveToFile ?s2))" using wf_frame [OF fr(1,2)] wf2 by simp
  moreover have "obj (heap (snd (saveToFile ?s2))) ?n = t" using fr(1) r(5) by simp
  moreover have "k < length (view s)" using k(1) by (simp add: view_def)
  ultimately show ?thesis using run fr(3) k(2) vk by simp
qed

text \<open>
  C5, as the code has it. In a store whose counter is an integer below \<open>2^53\<close> in
  absolute value (from there on a double no longer counts by one), and for a non-empty
  title, \<^verbatim>\<open>addTask\<close> appends one task \<open>t\<close> at the end of the sequence and leaves the
  tasks before it in place; \<open>t\<close> has the id that the counter held, the counter grows by
  one, the status is pending. The two time stamps are two successive readings of the
  clock: \<^verbatim>\<open>createdAt\<close> the first, \<^verbatim>\<open>updatedAt\<close> the second, equal when the clock shows
  the same time at both. The call returns \<open>t\<close> unless the save fails. When every id in
  the store is below the counter, the new id is above every id in the store, and every
  id is again below the counter.
\<close>

theorem addTask_appends:
  assumes "wellFormed s" and "\<bar>nextId s\<bar> < 2 ^ 53"
    and "in_title d = Some ttl" and "ttl \<noteq> []" and "addTask d s = (res, s')"
  defines "t \<equiv> obj (heap s') (length (heap s))"
  shows "res = (if writable s then Inr (length (heap s)) else Inl WriteFailed) \<and>
         view s' = view s @ [t] \<and> id' t = nextId s \<and> nextId s' = nextId s + 1 \<and>
         status t = ''pending'' \<and> title t = ttl \<and>
         createdAt t = toISOString (clock s (ticks s)) \<and>
         updatedAt t = toISOString (clock s (Suc (ticks s))) \<and>
         (clock s (Suc (ticks s)) = clock s (ticks s) \<longrightarrow> createdAt t = updatedAt t) \<and>
         (list_all (\<lambda>x. id' x < nextId s) (view s) \<longrightarrow>
            list_all (\<lambda>x. id' x < id' t) (view s) \<and>
            list_all (\<lambda>x. id' x < nextId s') (view s'))"
proof -
  from assms(5) have r: "res = fst (addTask d s)" "s' = snd (addTask d s)" by simp_all
  note e = addTask_effect [OF assms(1,2,3,4), folded r]
  from e have t: "t = \<lparr>id' = nextId s, title = ttl, description = or_else (in_description d) [],
       status = ''pending'', priority = or_else (in_priority d) ''medium'',
       createdAt = toISOString (clock s (ticks s)),
       updatedAt = toISOString (clock s (Suc (ticks s))),
       tags = (case in_tags d of None \<Rightarrow> [] | Some ts \<Rightarrow> ts),
       dueDate = (if dueTruthy (in_dueDate d) then in_dueDate d else NoDue)\<rparr>"
    by (simp add: t_def)
  have v: "view s' = view s @ [t]" using e t by simp
  have "list_all (\<lambda>x. id' x < id' t) (view s) \<and> list_all (\<lambda>x. id' x < nextId s') (view s')"
    if "list_all (\<lambda>x. id' x < nextId s) (view s)"
    using that e v t by (auto simp: list_all_iff)
  then show ?thesis using e v t by simp
qed

lemma iso_clock0: "toISOString (clock0 0) = ''2023-11-14T22:13:20.000Z''"
  "toISOString (clock0 (Suc 0)) = ''2023-11-14T22:13:20.001Z''"
  by code_simp+

text \<open>The statement above for the store with one task and a task titled ``call Bob''.\<close>

theorem addTask_appends_witness:
  "wellFormed demoState \<and> \<bar>nextId demoState\<bar> < 2 ^ 53 \<and>
   in_title callBob = Some ''call Bob'' \<and>
   fst (addTask callBob demoState) = Inr 2 \<and>
   map id' (view (snd (addTask callBob demoState))) = [1, 2] \<and>
   nextId (snd (addTask callBob demoState)) = 3 \<and>
   status (obj (heap (snd (addTask callBob demoState))) 2) = ''pending''"
proof -
  have d: "in_title callBob = Some ''call Bob''" by (simp add: callBob_def)
  have s: "length (heap demoState) = 2" "nextId demoState = 2" "writable demoState"
    by (simp_all add: demoState_def)
  have b: "\<bar>nextId demoState\<bar> < 2 ^ 53" by (simp add: demoState_def)
  from addTask_appends [OF wf_demoState b d _ prod.collapse [symmetric]]
  show ?thesis using b d s wf_demoState view_demoState by (simp add: demoTask_def)
qed

text \<open>
  C5 as stated asks for \<^verbatim>\<open>createdAt\<close> equal to \<^verbatim>\<open>updatedAt\<close>. With a clock that advances
  between the two readings, the new task's stamps differ by a millisecond.
\<close>

theorem addTask_stamps_counterexample:
  "createdAt (obj (heap (snd (addTask callBob demoState))) 2) = ''2023-11-14T22:13:20.000Z'' \<and>
   updatedAt (obj (heap (snd (addTask callBob demoState))) 2) = ''2023-11-14T22:13:20.001Z''"
proof -
  have d: "in_title callBob = Some ''call Bob''" by (simp add: callBob_def)
  have s: "length (heap demoState) = 2" "clock demoState = clock0" "ticks demoState = 0"
    by (simp_all add: demoState_def)
  have b: "\<bar>nextId demoState\<bar> < 2 ^ 53" by (simp add: demoState_def)
  from addTask_effect [OF wf_demoState b d]
  show ?thesis using s iso_clock0 by simp
qed


lemma spread_fields:
  "title (spread a u) = (case up_title u of None \<Rightarrow> title a | Some v \<Rightarrow> v) \<and>
   description (spread a u) = (case up_description u of None \<Rightarrow> description a | Some v \<Rightarrow> v) \<and>
   status (spread a u) = (case up_status u of None \<Rightarrow> status a | Some v \<Rightarrow> v) \<and>
   priority (spread a u) = (case up_priority u of None \<Rightarrow> priority a | Some v \<Rightarrow> v) \<and>
   tags (spread a u) = (case up_tags u of None \<Rightarrow> tags a | Some v \<Rightarrow> v) \<and>
   dueDate (spread a u) = (case up_dueDate u of None \<Rightarrow> dueDate a | Some v \<Rightarrow> v)"
  by (simp add: spread_def)

text \<open>
  C6, as the code has it. When a task has the given id, \<^verbatim>\<open>updateTask\<close> replaces the first
  such task, at position \<open>k\<close>, and no other. The new record keeps \<^verbatim>\<open>id\<close> and \<^verbatim>\<open>createdAt\<close>
  whatever \<^verbatim>\<open>updates\<close> holds for them, takes every other field from \<^verbatim>\<open>updates\<close> when it is
  present there and from the old record otherwise, and its \<^verbatim>\<open>updatedAt\<close> is the reading
  of the clock. The call returns the new record unless the save fails.
\<close>

theorem updateTask_merges:
  assumes "wellFormed s" and "i \<in> set (map id' (view s))" and "updateTask i u s = (res, s')"
  shows "\<exists>k < length (view s).
           id' (view s ! k) = i \<and>
           res = (if writable s then Inr (length (heap s)) else Inl WriteFailed) \<and>
           obj (heap s') (length (heap s)) = view s' ! k \<and>
           nextId s' = nextId s \<and> length (view s') = length (view s) \<and>
           (\<forall>j < length (view s). j \<noteq> k \<longrightarrow> view s' ! j = view s ! j) \<and>
           id' (view s' ! k) = id' (view s ! k) \<and>
           createdAt (view s' ! k) = createdAt (view s ! k) \<and>
           updatedAt (view s' ! k) = toISOString (clock s (ticks s)) \<and>
           title (view s' ! k) = (case up_title u of None \<Rightarrow> title (view s ! k) | Some v \<Rightarrow> v) \<and>
           description (view s' ! k) =
             (case up_description u of None \<Rightarrow> description (view s ! k) | Some v \<Rightarrow> v) \<and>
           status (view s' ! k) = (case up_status u of None \<Rightarrow> status (view s ! k) | Some v \<Rightarrow> v) \<and>
           priority (view s' ! k) =
             (case up_priority u of None \<Rightarrow> priority (view s ! k) | Some v \<Rightarrow> v) \<and>
           tags (view s' ! k) = (case up_tags u of None \<Rightarrow> tags (view s ! k) | Some v \<Rightarrow> v) \<and>
           dueDate (view s' ! k) =
             (case up_dueDate u of None \<Rightarrow> dueDate (view s ! k) | Some v \<Rightarrow> v)"
proof -
  from findIndex_present [OF assms(2)] obtain k where
    f: "findIndex (\<lambda>r. id' (obj (heap s) r) = i) (arr (heap s) (tasks s)) = Some k" by blast
  from assms(3) have r: "res = fst (updateTask i u s)" "s' = snd (updateTask i u s)" by simp_all
  note e = updateTask_effect [OF assms(1) f, of u, folded r]
  from e have k: "k < length (view s)" by simp
  have "view s' ! k = (spread (view s ! k) u)\<lparr>id' := id' (view s ! k),
                   createdAt := createdAt (view s ! k),
                   updatedAt := toISOString (clock s (ticks s))\<rparr>"
    using e k by simp
  then have fields: "id' (view s' ! k) = id' (view s ! k)"
      "createdAt (view s' ! k) = createdAt (view s ! k)"
      "updatedAt (view s' ! k) = toISOString (clock s (ticks s))"
      "title (view s' ! k) = title (spread (view s ! k) u)"
      "description (view s' ! k) = description (spread (view s ! k) u)"
      "status (view s' ! k) = status (spread (view s ! k) u)"
      "priority (view s' ! k) = priority (spread (view s ! k) u)"
      "tags (view s' ! k) = tags (spread (view s ! k) u)"
      "dueDate (view s' ! k) = dueDate (spread (view s ! k) u)"
    by simp_all
  have others: "\<forall>j < length (view s). j \<noteq> k \<longrightarrow> view s' ! j = view s ! j"
    using e by simp
  have "obj (heap s') (length (heap s)) = view s' ! k" using e k by simp
  then show ?thesis using e k fields others spread_fields [of "view s ! k" u]
    by (intro exI [of _ k]) simp
qed

text \<open>The statement above for completing the task of the store with one task.\<close>

theorem updateTask_merges_witness:
  "wellFormed demoState \<and> 1 \<in> set (map id' (view demoState)) \<and>
   fst (updateTask 1 (statusOnly ''completed'') demoState) = Inr 2 \<and>
   map id' (view (snd (updateTask 1 (statusOnly ''completed'') demoState))) = [1] \<and>
   map status (view (snd (updateTask 1 (statusOnly ''completed'') demoState))) = [''completed''] \<and>
   map title (view (snd (updateTask 1 (statusOnly ''completed'') demoState))) = [''write report'']"
proof -
  let ?s' = "snd (updateTask 1 (statusOnly ''completed'') demoState)"
  have i: "1 \<in> set (map id' (view demoState))" by (simp add: view_demoState demoTask_def)
  have s: "length (heap demoState) = 2" "writable demoState" by (simp_all add: demoState_def)
  from updateTask_merges [OF wf_demoState i prod.collapse [symmetric], of "statusOnly ''completed''"]
  have "fst (updateTask 1 (statusOnly ''completed'') demoState) = Inr 2 \<and>
        length (view ?s') = 1 \<and> id' (view ?s' ! 0) = 1 \<and> status (view ?s' ! 0) = ''completed'' \<and>
        title (view ?s' ! 0) = ''write report''"
    using s by (simp add: view_demoState statusOnly_def demoTask_def)
  then have "fst (updateTask 1 (statusOnly ''completed'') demoState) = Inr 2 \<and>
     (\<exists>t. view ?s' = [t] \<and> id' t = 1 \<and> status t = ''completed'' \<and> title t = ''write report'')"
    by (cases "view ?s'") auto
  then show ?thesis using wf_demoState i by auto
qed

text \<open>
  C6 as stated asks for an \<^verbatim>\<open>updatedAt\<close> strictly greater than the previous one. When the
  clock reads the instant at which the task was last stamped, the new stamp equals the
  old one.
\<close>

theorem updateTask_same_instant_counterexample:
  "updatedAt (view demoState ! 0) = ''2023-11-14T22:13:20.000Z'' \<and>
   updatedAt (view (snd (updateTask 1 (statusOnly ''completed'') demoState)) ! 0) =
     ''2023-11-14T22:13:20.000Z'' \<and>
   \<not> updatedAt (view demoState ! 0)
       < updatedAt (view (snd (updateTask 1 (statusOnly ''completed'') demoState)) ! 0)"
proof -
  have f: "findIndex (\<lambda>r. id' (obj (heap demoState) r) = 1)
             (arr (heap demoState) (tasks demoState)) = Some 0"
    by (simp add: demoState_def arr_def obj_def demoTask_def)
  have s: "clock demoState = clock0" "ticks demoState = 0" by (simp_all add: demoState_def)
  from updateTask_effect [OF wf_demoState f, of "statusOnly ''completed''"]
  have "updatedAt (view (snd (updateTask 1 (statusOnly ''completed'') demoState)) ! 0) =
     ''2023-11-14T22:13:20.000Z''"
    using s iso_clock0 by (simp add: view_demoState)
  moreover have "updatedAt (view demoState ! 0) = ''2023-11-14T22:13:20.000Z''"
    by (simp add: view_demoState demoTask_def)
  ultimately show ?thesis by simp
qed

text \<open>
  C10. \<^verbatim>\<open>updateTask\<close> stores what \<^verbatim>\<open>updates\<close> holds, whatever the value: the title, status
  and priority of the updated task are those of \<^verbatim>\<open>updates\<close> when present. In particular an
  empty title is stored, and any text \<open>x\<close> is stored as status, while \<^verbatim>\<open>addTask\<close> rejects
  the empty title and changes nothing.
\<close>

theorem updateTask_no_validation:
  assumes "wellFormed s" and "i \<in> set (map id' (view s))"
  shows "\<exists>k < length (view s).
           id' (view s ! k) = i \<and>
           fst (updateTask i u s) = (if writable s then Inr (length (heap s)) else Inl WriteFailed) \<and>
           title (view (snd (updateTask i u s)) ! k) =
             (case up_title u of None \<Rightarrow> title (view s ! k) | Some v \<Rightarrow> v) \<and>
           status (view (snd (updateTask i u s)) ! k) =
             (case up_status u of None \<Rightarrow> status (view s ! k) | Some v \<Rightarrow> v) \<and>
           priority (view (snd (updateTask i u s)) ! k) =
             (case up_priority u of None \<Rightarrow> priority (view s ! k) | Some v \<Rightarrow> v) \<and>
           title (view (snd (updateTask i (titleOnly []) s)) ! k) = [] \<and>
           status (view (snd (updateTask i (statusOnly x) s)) ! k) = x \<and>
           addTask (d\<lparr>in_title := Some []\<rparr>) s = (Inl EmptyTitle, s)"
proof -
  from findIndex_present [OF assms(2)] obtain k where
    f: "findIndex (\<lambda>r. id' (obj (heap s) r) = i) (arr (heap s) (tasks s)) = Some k" by blast
  have e: "k < length (view s) \<and> id' (view s ! k) = i \<and>
      fst (updateTask i v s) = (if writable s then Inr (length (heap s)) else Inl WriteFailed) \<and>
      title (view (snd (updateTask i v s)) ! k) = title (spread (view s ! k) v) \<and>
      status (view (snd (updateTask i v s)) ! k) = status (spread (view s ! k) v) \<and>
      priority (view (snd (updateTask i v s)) ! k) = priority (spread (view s ! k) v)" for v
    using updateTask_effect [OF assms(1) f, of v] by simp
  have a: "addTask (d\<lparr>in_title := Some []\<rparr>) s = (Inl EmptyTitle, s)"
    by (simp add: addTask_def)
  show ?thesis
    using e [of u] e [of "titleOnly []"] e [of "statusOnly x"] a spread_fields [of "view s ! k" u]
    by (intro exI [of _ k]) (simp add: spread_def titleOnly_def statusOnly_def)
qed

text \<open>The statement above for the store with one task.\<close>

theorem updateTask_no_validation_witness:
  "wellFormed demoState \<and> 1 \<in> set (map id' (view demoState)) \<and>
   fst (updateTask 1 (titleOnly []) demoState) = Inr 2 \<and>
   map title (view (snd (updateTask 1 (titleOnly []) demoState))) = [[]] \<and>
   map status (view (snd (updateTask 1 (statusOnly ''someday'') demoState))) = [''someday''] \<and>
   addTask (callBob\<lparr>in_title := Some []\<rparr>) demoState = (Inl EmptyTitle, demoState)"
proof -
  let ?a = "snd (updateTask 1 (titleOnly []) demoState)"
  let ?b = "snd (updateTask 1 (statusOnly ''someday'') demoState)"
  have i: "1 \<in> set (map id' (view demoState))" by (simp add: view_demoState demoTask_def)
  have s: "length (heap demoState) = 2" "writable demoState" by (simp_all add: demoState_def)
  have f: "findIndex (\<lambda>r. id' (obj (heap demoState) r) = 1)
             (arr (heap demoState) (tasks demoState)) = Some 0"
    by (simp add: demoState_def arr_def obj_def demoTask_def)
  have la: "length (view ?a) = 1"
    using updateTask_effect [OF wf_demoState f, of "titleOnly []"] by (simp add: view_demoState)
  have lb: "length (view ?b) = 1"
    using updateTask_effect [OF wf_demoState f, of "statusOnly ''someday''"]
    by (simp add: view_demoState)
  from updateTask_no_validation [OF wf_demoState i, of "titleOnly []" "''someday''" callBob]
  have "fst (updateTask 1 (titleOnly []) demoState) = Inr 2 \<and> title (view ?a ! 0) = [] \<and>
        status (view ?b ! 0) = ''someday'' \<and>
        addTask (callBob\<lparr>in_title := Some []\<rparr>) demoState = (Inl EmptyTitle, demoState)"
    using s by (auto simp: view_demoState titleOnly_def)
  moreover have "map title (view ?a) = [title (view ?a ! 0)]"
    using la by (cases "view ?a") simp_all
  moreover have "map status (view ?b) = [status (view ?b ! 0)]"
    using lb by (cases "view ?b") simp_all
  ultimately show ?thesis using wf_demoState i by simp
qed

subsection \<open>Completing tasks\<close>













subsection \<open>Statistics\<close>

text \<open>
  The text of the completion rate: for \<open>c\<close> completed tasks of \<open>t\<close>, with \<open>t\<close> below the
  largest length of an array, the digits are those of an integer \<open>n\<close> of hundredths of a
  percent that is nearest to \<open>10000 c / t\<close>. The two roundings of the quotient and of the
  product are too small to move \<open>n\<close> away from the nearest ones.
\<close>

lemma percent_nearest:
  assumes c0: "0 \<le> c" and ct: "c \<le> t" and t0: "0 < t" and tb: "t < 2 ^ 32"
  shows "\<exists>n. percent c t = dec (nat (n div 100)) @ ''.'' @ fixed 2 (n mod 100) @ ''%'' \<and>
             \<bar>rat_of_int n - 10000 * rat_of_int c / rat_of_int t\<bar> \<le> 1 / 2"
proof -
  define q :: rat where "q = of_int c / of_int t"
  define x where "x = double (double q * 100)"
  define n where "n = \<lfloor>x * 100 + 1 / 2\<rfloor>"
  have shape: "percent c t = dec (nat (n div 100)) @ ''.'' @ fixed 2 (n mod 100) @ ''%''"
    by (simp add: percent_def toFixed2_def Let_def q_def x_def n_def)
  have q0: "0 \<le> q" and q1: "q \<le> 1"
    using c0 ct t0 by (simp_all add: q_def)
  have err: "\<bar>x - 100 * q\<bar> \<le> 300 / 2 ^ 53"
  proof (cases "q = 0")
    case True
    then show ?thesis by (simp add: x_def double_zero)
  next
    case False
    then have qp: "0 < q" using q0 by simp
    have e1: "\<bar>double q - q\<bar> \<le> q / 2 ^ 53" using double_error [OF qp] .
    have "q / 2 ^ 53 \<le> 1 / 2 ^ 53" using q1 by (intro divide_right_mono) simp_all
    with e1 have e1': "\<bar>double q - q\<bar> \<le> 1 / 2 ^ 53" by linarith
    have "q / 2 ^ 53 < q" using qp by (simp add: divide_less_eq)
    with e1 have dp: "0 < double q" by linarith
    have "(1::rat) / 2 ^ 53 \<le> 1" by simp
    with e1' q1 have dle: "double q \<le> 2" by linarith
    define y where "y = double q * 100"
    have yp: "0 < y" and yle: "y \<le> 200" using dp dle by (simp_all add: y_def)
    have e2: "\<bar>x - y\<bar> \<le> y / 2 ^ 53" using double_error [OF yp] by (simp add: x_def y_def)
    have "y / 2 ^ 53 \<le> 200 / 2 ^ 53" using yle by (intro divide_right_mono) simp_all
    with e2 have e2': "\<bar>x - y\<bar> \<le> 200 / 2 ^ 53" by linarith
    have e3: "\<bar>y - 100 * q\<bar> \<le> 100 / 2 ^ 53" using e1' unfolding y_def by linarith
    show ?thesis using e2' e3 by linarith
  qed
  have n1: "of_int n \<le> x * 100 + 1 / 2" and n2: "x * 100 + 1 / 2 < of_int n + 1"
    unfolding n_def by linarith+
  have err': "\<bar>x * 100 - 10000 * q\<bar> \<le> 30000 / 2 ^ 53" using err by linarith
  have close: "\<bar>of_int n - 10000 * q\<bar> \<le> 1 / 2 + 30000 / 2 ^ 53"
    using err' n1 n2 by linarith
  have tq: "of_int t * q = of_int c" using t0 by (simp add: q_def)
  have tp: "(0::rat) < of_int t" using t0 by simp
  have "of_int (n * t - 10000 * c) = of_int t * (of_int n - 10000 * q)"
    using tq by (simp add: algebra_simps)
  then have ae: "\<bar>rat_of_int (n * t - 10000 * c)\<bar> = of_int t * \<bar>of_int n - 10000 * q\<bar>"
    using tp by (simp add: abs_mult)
  have "of_int t * \<bar>of_int n - 10000 * q\<bar> \<le> of_int t * (1 / 2 + 30000 / 2 ^ 53)"
    using close tp by (intro mult_left_mono) simp_all
  also have "\<dots> = of_int t / 2 + of_int t * (30000 / 2 ^ 53)" by (simp add: algebra_simps)
  also have "\<dots> < of_int t / 2 + 1 / 2"
  proof -
    have "rat_of_int t < 2 ^ 32" using tb by (metis of_int_less_iff of_int_numeral of_int_power)
    then have "of_int t * (30000 / 2 ^ 53) < (2::rat) ^ 32 * (30000 / 2 ^ 53)"
      by (intro mult_strict_right_mono) simp_all
    also have "\<dots> < 1 / 2" by simp
    finally show ?thesis by simp
  qed
  finally have "2 * \<bar>rat_of_int (n * t - 10000 * c)\<bar> < of_int t + 1" using ae by simp
  then have "rat_of_int (2 * \<bar>n * t - 10000 * c\<bar>) < of_int (t + 1)" by simp
  then have "2 * \<bar>n * t - 10000 * c\<bar> < t + 1" by (simp only: of_int_less_iff)
  then have "2 * \<bar>n * t - 10000 * c\<bar> \<le> t" by simp
  then have "rat_of_int (2 * \<bar>n * t - 10000 * c\<bar>) \<le> of_int t" by (simp only: of_int_le_iff)
  then have "2 * (of_int t * \<bar>of_int n - 10000 * q\<bar>) \<le> of_int t * 1" using ae by simp
  then have "of_int t * (2 * \<bar>of_int n - 10000 * q\<bar>) \<le> of_int t * 1"
    by (simp add: mult.left_commute)
  then have "2 * \<bar>of_int n - 10000 * q\<bar> \<le> 1" using tp by (simp only: mult_le_cancel_left_pos)
  then have "\<bar>rat_of_int n - 10000 * rat_of_int c / rat_of_int t\<bar> \<le> 1 / 2"
    by (simp add: q_def)
  with shape show ?thesis by blast
qed


lemma increment_other: "k \<noteq> k' \<Longrightarrow> increment k' m k = m k"
  by (cases "m k'") (auto simp: increment_def split: count.splits)

lemma increment_same: "m k = Some (Count n) \<Longrightarrow> increment k m k = Some (Count (n + 1))"
  by (simp add: increment_def)

lemma tally_byStatus:
  "byStatus st k = Some (Count n) \<Longrightarrow>
   byStatus (foldl (tally p nw) st ts) k =
     Some (Count (n + int (length (filter (\<lambda>t. status t = k) ts))))"
proof (induction ts arbitrary: st n)
  case Nil
  then show ?case by simp
next
  case (Cons t ts)
  have "byStatus (tally p nw st t) k =
          Some (Count (if status t = k then n + 1 else n))"
    using Cons.prems by (simp add: tally_def increment_other increment_same)
  from Cons.IH [OF this] show ?case by simp
qed

lemma tally_byPriority:
  "byPriority st k = Some (Count n) \<Longrightarrow>
   byPriority (foldl (tally p nw) st ts) k =
     Some (Count (n + int (length (filter (\<lambda>t. priority t = k) ts))))"
proof (induction ts arbitrary: st n)
  case Nil
  then show ?case by simp
next
  case (Cons t ts)
  have "byPriority (tally p nw st t) k =
          Some (Count (if priority t = k then n + 1 else n))"
    using Cons.prems by (simp add: tally_def increment_other increment_same)
  from Cons.IH [OF this] show ?case by simp
qed

lemma tally_overdue:
  "overdue (foldl (tally p nw) st ts) =
     overdue st + int (length (filter (\<lambda>t. dueTruthy (dueDate t) \<and>
        less_num (dateOf p (dueDate t)) (Some nw) \<and> status t \<noteq> ''completed'') ts))"
  by (induction ts arbitrary: st) (simp_all add: tally_def)

lemma tally_rest:
  "total' (foldl (tally p nw) st ts) = total' st \<and>
   completionRate (foldl (tally p nw) st ts) = completionRate st"
  by (induction ts arbitrary: st) (simp_all add: tally_def)

text \<open>
  C9. For a store of fewer than \<open>2^32\<close> tasks (a JavaScript array holds no more),
  \<^verbatim>\<open>getStatistics\<close> returns: as \<^verbatim>\<open>total\<close> the number of tasks; in \<^verbatim>\<open>byStatus\<close> and in
  \<^verbatim>\<open>byPriority\<close> a count under each of the three keys, zero included; as \<^verbatim>\<open>overdue\<close> the
  number of tasks that have a due date before the reading of the clock and are not
  completed; as \<^verbatim>\<open>completionRate\<close> the number 0 when there is no task, and otherwise the
  percentage of completed tasks with two decimals and a percent sign, the decimals being
  those of a nearest hundredth.
\<close>

theorem getStatistics_counts:
  fixes e :: engine
  assumes "length (view s) < 2 ^ 32"
  defines "st \<equiv> fst (getStatistics e s)"
  shows "total' st = int (length (view s)) \<and>
    byStatus st ''pending'' =
      Some (Count (int (length (filter (\<lambda>t. status t = ''pending'') (view s))))) \<and>
    byStatus st ''in-progress'' =
      Some (Count (int (length (filter (\<lambda>t. status t = ''in-progress'') (view s))))) \<and>
    byStatus st ''completed'' =
      Some (Count (int (length (filter (\<lambda>t. status t = ''completed'') (view s))))) \<and>
    byPriority st ''high'' =
      Some (Count (int (length (filter (\<lambda>t. priority t = ''high'') (view s))))) \<and>
    byPriority st ''medium'' =
      Some (Count (int (length (filter (\<lambda>t. priority t = ''medium'') (view s))))) \<and>
    byPriority st ''low'' =
      Some (Count (int (length (filter (\<lambda>t. priority t = ''low'') (view s))))) \<and>
    overdue st = int (length (filter (\<lambda>t. dueTruthy (dueDate t) \<and>
        less_num (dateOf (dateParse e) (dueDate t)) (Some (clock s (ticks s))) \<and>
        status t \<noteq> ''completed'') (view s))) \<and>
    (view s = [] \<longrightarrow> completionRate st = RateNumber 0) \<and>
    (view s \<noteq> [] \<longrightarrow>
       (\<exists>n. completionRate st =
              RateText (dec (nat (n div 100)) @ ''.'' @ fixed 2 (n mod 100) @ ''%'') \<and>
            \<bar>rat_of_int n -
               10000 * rat_of_int (int (length (filter (\<lambda>t. status t = ''completed'') (view s))))
                 / rat_of_int (int (length (view s)))\<bar> \<le> 1 / 2))"
proof -
  let ?init = "\<lparr>total' = int (length (view s)),
                byStatus = [''pending'' \<mapsto> Count 0, ''in-progress'' \<mapsto> Count 0,
                            ''completed'' \<mapsto> Count 0],
                byPriority = [''high'' \<mapsto> Count 0, ''medium'' \<mapsto> Count 0,
                              ''low'' \<mapsto> Count 0],
                completionRate = RateNumber 0, overdue = 0\<rparr>"
  define f where "f = foldl (tally (dateParse e) (clock s (ticks s))) ?init (view s)"
  define c where "c = int (length (filter (\<lambda>t. status t = ''completed'') (view s)))"
  have tot: "total' f = int (length (view s))" and rate0: "completionRate f = RateNumber 0"
    using tally_rest [of "dateParse e" "clock s (ticks s)" ?init "view s"] by (simp_all add: f_def)
  have bs: "byStatus f k = Some (Count (int (length (filter (\<lambda>t. status t = k) (view s)))))"
    if "k = ''pending'' \<or> k = ''in-progress'' \<or> k = ''completed''" for k
  proof -
    have "byStatus ?init k = Some (Count 0)" using that by auto
    from tally_byStatus [OF this] show ?thesis by (simp add: f_def)
  qed
  have bp: "byPriority f k = Some (Count (int (length (filter (\<lambda>t. priority t = k) (view s)))))"
    if "k = ''high'' \<or> k = ''medium'' \<or> k = ''low''" for k
  proof -
    have "byPriority ?init k = Some (Count 0)" using that by auto
    from tally_byPriority [OF this] show ?thesis by (simp add: f_def)
  qed
  have od: "overdue f = int (length (filter (\<lambda>t. dueTruthy (dueDate t) \<and>
        less_num (dateOf (dateParse e) (dueDate t)) (Some (clock s (ticks s))) \<and>
        status t \<noteq> ''completed'') (view s)))"
    using tally_overdue [of "dateParse e" "clock s (ticks s)" ?init "view s"] by (simp add: f_def)
  have bc: "byStatus f ''completed'' = Some (Count c)" using bs by (simp add: c_def)
  have st: "st = (if 0 < total' f then f\<lparr>completionRate := RateText (percent c (total' f))\<rparr>
                  else f)"
    using bc by (simp add: st_def getStatistics_def now_def view_def f_def Let_def)
  have fields: "total' st = total' f" "byStatus st = byStatus f" "byPriority st = byPriority f"
      "overdue st = overdue f"
    by (simp_all add: st)
  have empty: "completionRate st = RateNumber 0" if "view s = []"
    using that tot rate0 by (simp add: st)
  have nonempty: "\<exists>n. completionRate st =
              RateText (dec (nat (n div 100)) @ ''.'' @ fixed 2 (n mod 100) @ ''%'') \<and>
            \<bar>rat_of_int n - 10000 * rat_of_int c / rat_of_int (int (length (view s)))\<bar> \<le> 1 / 2"
    if "view s \<noteq> []"
  proof -
    have pos: "0 < int (length (view s))" using that by simp
    have le: "c \<le> int (length (view s))" by (simp add: c_def)
    have c0: "0 \<le> c" by (simp add: c_def)
    have lt: "int (length (view s)) < 2 ^ 32" using assms(1) by (metis of_nat_less_iff of_nat_numeral of_nat_power)
    from percent_nearest [OF c0 le pos lt] show ?thesis using tot pos by (simp add: st)
  qed
  show ?thesis
    using fields tot bs bp od empty nonempty unfolding c_def by simp
qed


lemma view_fourTasks:
  "view fourTasks = [doneTask, laterTask\<lparr>dueDate := DueDate 1600000000000\<rparr>,
                     laterTask\<lparr>id' := 3, status := ''in-progress''\<rparr>, doneTask\<lparr>id' := 4\<rparr>]"
  by (simp add: view_def fourTasks_def arr_def obj_def)

lemma rate_text: "dec (nat (5000 div 100)) @ ''.'' @ fixed 2 (5000 mod 100) @ ''%'' = ''50.00%''"
  by code_simp

text \<open>
  The statement above for four tasks of which two are completed, one is pending and one
  in progress: the rate is the text ``50.00%''.
\<close>

theorem getStatistics_counts_witness:
  "length (view fourTasks) < 2 ^ 32 \<and> view fourTasks \<noteq> [] \<and>
   total' (fst (getStatistics engineLeft fourTasks)) = 4 \<and>
   byStatus (fst (getStatistics engineLeft fourTasks)) ''pending'' = Some (Count 1) \<and>
   byStatus (fst (getStatistics engineLeft fourTasks)) ''in-progress'' = Some (Count 1) \<and>
   byStatus (fst (getStatistics engineLeft fourTasks)) ''completed'' = Some (Count 2) \<and>
   byPriority (fst (getStatistics engineLeft fourTasks)) ''high'' = Some (Count 0) \<and>
   byPriority (fst (getStatistics engineLeft fourTasks)) ''medium'' = Some (Count 4) \<and>
   overdue (fst (getStatistics engineLeft fourTasks)) = 1 \<and>
   completionRate (fst (getStatistics engineLeft fourTasks)) = RateText ''50.00%''"
proof -
  let ?st = "fst (getStatistics engineLeft fourTasks)"
  have len: "length (view fourTasks) < 2 ^ 32" by (simp add: view_fourTasks)
  have ne: "view fourTasks \<noteq> []" by (simp add: view_fourTasks)
  have c: "clock fourTasks (ticks fourTasks) = 1700000000000"
    by (simp add: fourTasks_def clock0_def)
  note t = getStatistics_counts [OF len, of engineLeft]
  have counts: "total' ?st = 4" "byStatus ?st ''pending'' = Some (Count 1)"
      "byStatus ?st ''in-progress'' = Some (Count 1)" "byStatus ?st ''completed'' = Some (Count 2)"
      "byPriority ?st ''high'' = Some (Count 0)" "byPriority ?st ''medium'' = Some (Count 4)"
    using t by (simp_all add: view_fourTasks doneTask_def laterTask_def demoTask_def)
  have od: "overdue ?st = 1"
    using t c
    by (simp add: view_fourTasks doneTask_def laterTask_def demoTask_def dueTruthy_def
          dateOf_def validTime_def less_num_def engineLeft_def)
  from t ne obtain n where
    n: "completionRate ?st = RateText (dec (nat (n div 100)) @ ''.'' @ fixed 2 (n mod 100) @ ''%'')"
       "\<bar>rat_of_int n - 10000 * rat_of_int (int (length (filter (\<lambda>t. status t = ''completed'')
            (view fourTasks)))) / rat_of_int (int (length (view fourTasks)))\<bar> \<le> 1 / 2"
    by blast
  from n(2) have "\<bar>rat_of_int n - 5000\<bar> \<le> 1 / 2"
    by (simp add: view_fourTasks doneTask_def laterTask_def demoTask_def)
  then have "rat_of_int n < 5001" "4999 < rat_of_int n" by linarith+
  then have "rat_of_int n < of_int 5001" "of_int 4999 < rat_of_int n" by simp_all
  then have "n < 5001" "4999 < n" by (simp_all only: of_int_less_iff)
  then have "n = 5000" by simp
  with n(1) have "completionRate ?st = RateText ''50.00%''" by (simp only: rate_text)
  then show ?thesis using len ne counts od by simp
qed

end
